theory Spec2Isabelle
  imports Complex_Main "HOL-Library.Sublist" "HOL-Library.Multiset"
begin

section \<open>JavaScript strings and values\<close>

text \<open>
  A JavaScript string is the list of its UTF-16 code units. String literals of the
  source are written \<open>ascii ''...''\<close>.

  The values a patch record can hold are \<open>undefined\<close>, integral numbers, \<open>NaN\<close> and
  strings: the parser stores \<open>parseInt\<close> results and raw tokens only. Numbers that
  arithmetic produces (\<open>jsnum\<close>) may also be fractional or infinite, because
  \<open>ToNumber\<close> of a string can be. Numbers are exact here; IEEE doubles agree with
  them for magnitudes up to \<open>2^53\<close>. Negative zero is identified with zero, which no
  operation below distinguishes.
\<close>

type_synonym jsstring = "nat list"

definition ascii :: "string \<Rightarrow> jsstring" where
  "ascii s = map of_char s"

datatype jsnum = Fin rat | NaN | PosInf | NegInf

datatype jsval = JUndefined | JNum int | JNaN | JStr jsstring

text \<open>\<open>\s\<close> of a regular expression and the characters \<open>trim\<close> strips: WhiteSpace and
  LineTerminator of ECMAScript.\<close>

definition is_space :: "nat \<Rightarrow> bool" where
  "is_space c = (c \<in> set [9, 10, 11, 12, 13, 32, 160, 5760, 8232, 8233, 8239, 8287, 12288, 65279]
                 \<or> (8192 \<le> c \<and> c \<le> 8202))"

text \<open>\<open>.\<close> of a regular expression (no \<open>s\<close> flag): anything but a line terminator.\<close>

definition is_dot :: "nat \<Rightarrow> bool" where
  "is_dot c = (c \<notin> set [10, 13, 8232, 8233])"

definition is_any :: "nat \<Rightarrow> bool" where
  "is_any c = True"

definition is_digit :: "nat \<Rightarrow> bool" where
  "is_digit c = (48 \<le> c \<and> c \<le> 57)"

definition is_hex_digit :: "nat \<Rightarrow> bool" where
  "is_hex_digit c = (is_digit c \<or> (97 \<le> c \<and> c \<le> 102) \<or> (65 \<le> c \<and> c \<le> 70))"

definition digit_value :: "nat \<Rightarrow> nat" where
  "digit_value c = (if is_digit c then c - 48 else if 97 \<le> c then c - 87 else c - 55)"

definition digits_value :: "nat \<Rightarrow> jsstring \<Rightarrow> nat" where
  "digits_value radix ds = foldl (\<lambda>acc d. acc * radix + digit_value d) 0 ds"

definition js_trim :: "jsstring \<Rightarrow> jsstring" where
  "js_trim s = rev (dropWhile is_space (rev (dropWhile is_space s)))"

fun strip_prefix :: "jsstring \<Rightarrow> jsstring \<Rightarrow> jsstring option" where
  "strip_prefix [] s = Some s"
| "strip_prefix (w # ws) [] = None"
| "strip_prefix (w # ws) (c # cs) = (if w = c then strip_prefix ws cs else None)"

subsection \<open>\<open>split\<close> and \<open>join\<close>\<close>

text \<open>\<open>s.split(sep)\<close> for a one-character separator: never empty, \<open>''.split(sep)\<close> is \<open>['']\<close>.\<close>

fun js_split :: "nat \<Rightarrow> jsstring \<Rightarrow> jsstring list" where
  "js_split sep [] = [[]]"
| "js_split sep (c # cs) =
     (if c = sep then [] # js_split sep cs
      else (case js_split sep cs of [] \<Rightarrow> [[c]] | x # xs \<Rightarrow> (c # x) # xs))"

fun js_join :: "nat \<Rightarrow> jsstring list \<Rightarrow> jsstring" where
  "js_join sep [] = []"
| "js_join sep [x] = x"
| "js_join sep (x # y # ys) = x @ sep # js_join sep (y # ys)"

text \<open>\<open>s.split(/\s+/)\<close>: every maximal run of white space separates two pieces.\<close>

fun split_ws :: "jsstring \<Rightarrow> jsstring list" where
  "split_ws [] = [[]]"
| "split_ws [c] = (if is_space c then [[], []] else [[c]])"
| "split_ws (c # d # ds) =
     (if is_space c then (if is_space d then split_ws (d # ds) else [] # split_ws (d # ds))
      else (case split_ws (d # ds) of [] \<Rightarrow> [[c]] | x # xs \<Rightarrow> (c # x) # xs))"

definition newline :: nat where
  "newline = 10"

subsection \<open>Numbers from strings\<close>

text \<open>The optional exponent part of a decimal literal, which must end the string.\<close>

definition exponent_part :: "jsstring \<Rightarrow> int option" where
  "exponent_part s =
     (case s of
        [] \<Rightarrow> Some 0
      | c # cs \<Rightarrow>
          if c = 101 \<or> c = 69 then
            (case cs of
               [] \<Rightarrow> None
             | d # ds \<Rightarrow>
                 if d = 43 then (if ds \<noteq> [] \<and> list_all is_digit ds then Some (int (digits_value 10 ds)) else None)
                 else if d = 45 then (if ds \<noteq> [] \<and> list_all is_digit ds then Some (- int (digits_value 10 ds)) else None)
                 else if list_all is_digit cs then Some (int (digits_value 10 cs)) else None)
          else None)"

definition scale10 :: "rat \<Rightarrow> int \<Rightarrow> rat" where
  "scale10 m e = (if 0 \<le> e then m * 10 ^ nat e else m / 10 ^ nat (- e))"

text \<open>StrUnsignedDecimalLiteral: \<open>Infinity\<close>, or digits with an optional fraction and
  exponent, with a digit before or after the point.\<close>

definition unsigned_decimal :: "jsstring \<Rightarrow> jsnum" where
  "unsigned_decimal s =
     (if s = ascii ''Infinity'' then PosInf
      else
        let ip = takeWhile is_digit s;
            r1 = dropWhile is_digit s;
            fp = (case r1 of [] \<Rightarrow> [] | c # cs \<Rightarrow> if c = 46 then takeWhile is_digit cs else []);
            r2 = (case r1 of [] \<Rightarrow> [] | c # cs \<Rightarrow> if c = 46 then dropWhile is_digit cs else r1)
        in if ip = [] \<and> fp = [] then NaN
           else (case exponent_part r2 of
                   None \<Rightarrow> NaN
                 | Some e \<Rightarrow>
                     Fin (scale10 (of_nat (digits_value 10 ip)
                                   + of_nat (digits_value 10 fp) / 10 ^ length fp) e)))"

definition jsnum_neg :: "jsnum \<Rightarrow> jsnum" where
  "jsnum_neg x = (case x of Fin q \<Rightarrow> Fin (- q) | NaN \<Rightarrow> NaN | PosInf \<Rightarrow> NegInf | NegInf \<Rightarrow> PosInf)"

definition prefixed_literal :: "bool \<Rightarrow> nat \<Rightarrow> jsstring \<Rightarrow> jsnum" where
  "prefixed_literal hex radix ds =
     (if ds \<noteq> [] \<and> list_all (\<lambda>c. if hex then is_hex_digit c else is_digit c \<and> c < 48 + radix) ds
      then Fin (of_nat (digits_value radix ds)) else NaN)"

text \<open>\<open>Number(s)\<close> for a string \<open>s\<close> (StringToNumber): white space is trimmed, the empty
  string is 0, \<open>0x\<close>, \<open>0o\<close> and \<open>0b\<close> literals carry no sign, anything that is not a
  numeric literal is \<open>NaN\<close>.\<close>

definition string_to_number :: "jsstring \<Rightarrow> jsnum" where
  "string_to_number s =
     (let t = js_trim s in
      case t of
        [] \<Rightarrow> Fin 0
      | [c] \<Rightarrow> unsigned_decimal t
      | c # d # ds \<Rightarrow>
          if c = 48 \<and> (d = 120 \<or> d = 88) then prefixed_literal True 16 ds
          else if c = 48 \<and> (d = 111 \<or> d = 79) then prefixed_literal False 8 ds
          else if c = 48 \<and> (d = 98 \<or> d = 66) then prefixed_literal False 2 ds
          else if c = 43 then unsigned_decimal (d # ds)
          else if c = 45 then jsnum_neg (unsigned_decimal (d # ds))
          else unsigned_decimal t)"

definition js_isNaN :: "jsstring \<Rightarrow> bool" where
  "js_isNaN s = (string_to_number s = NaN)"

text \<open>\<open>parseInt(s)\<close> with no radix: leading white space and a sign are skipped, \<open>0x\<close>
  selects radix 16, the longest run of digits is read, and no digit at all is \<open>NaN\<close>.\<close>

definition parseInt_digits :: "int \<Rightarrow> jsstring \<Rightarrow> jsval" where
  "parseInt_digits sign s =
     (case s of
        c # d # ds \<Rightarrow>
          if c = 48 \<and> (d = 120 \<or> d = 88) then
            (if takeWhile is_hex_digit ds = [] then JNaN
             else JNum (sign * int (digits_value 16 (takeWhile is_hex_digit ds))))
          else if takeWhile is_digit s = [] then JNaN
          else JNum (sign * int (digits_value 10 (takeWhile is_digit s)))
      | _ \<Rightarrow>
          if takeWhile is_digit s = [] then JNaN
          else JNum (sign * int (digits_value 10 (takeWhile is_digit s))))"

definition js_parseInt :: "jsstring \<Rightarrow> jsval" where
  "js_parseInt s =
     (case dropWhile is_space s of
        [] \<Rightarrow> JNaN
      | c # cs \<Rightarrow>
          if c = 45 then parseInt_digits (- 1) cs
          else if c = 43 then parseInt_digits 1 cs
          else parseInt_digits 1 (c # cs))"

subsection \<open>Coercions and operators\<close>

definition truthy :: "jsval \<Rightarrow> bool" where
  "truthy v = (case v of JUndefined \<Rightarrow> False | JNum n \<Rightarrow> n \<noteq> 0 | JNaN \<Rightarrow> False | JStr s \<Rightarrow> s \<noteq> [])"

text \<open>\<open>a || b\<close>\<close>

definition js_or :: "jsval \<Rightarrow> jsval \<Rightarrow> jsval" where
  "js_or a b = (if truthy a then a else b)"

definition to_number :: "jsval \<Rightarrow> jsnum" where
  "to_number v =
     (case v of JUndefined \<Rightarrow> NaN | JNum n \<Rightarrow> Fin (of_int n) | JNaN \<Rightarrow> NaN | JStr s \<Rightarrow> string_to_number s)"

fun show_nat :: "nat \<Rightarrow> jsstring" where
  "show_nat n = (if n < 10 then [48 + n] else show_nat (n div 10) @ [48 + n mod 10])"

definition show_int :: "int \<Rightarrow> jsstring" where
  "show_int i = (if i < 0 then 45 # show_nat (nat (- i)) else show_nat (nat i))"

definition to_string :: "jsval \<Rightarrow> jsstring" where
  "to_string v =
     (case v of JUndefined \<Rightarrow> ascii ''undefined'' | JNum n \<Rightarrow> show_int n
              | JNaN \<Rightarrow> ascii ''NaN'' | JStr s \<Rightarrow> s)"

text \<open>\<open>a - b\<close> on numbers.\<close>

fun js_sub :: "jsnum \<Rightarrow> jsnum \<Rightarrow> jsnum" where
  "js_sub (Fin a) (Fin b) = Fin (a - b)"
| "js_sub NaN _ = NaN"
| "js_sub _ NaN = NaN"
| "js_sub PosInf PosInf = NaN"
| "js_sub NegInf NegInf = NaN"
| "js_sub PosInf _ = PosInf"
| "js_sub NegInf _ = NegInf"
| "js_sub (Fin a) PosInf = NegInf"
| "js_sub (Fin a) NegInf = PosInf"

text \<open>\<open>a + b\<close> followed by a numeric use of the sum: when either operand is a string
  the operands are concatenated as strings and the result is read back as a number,
  otherwise the numbers are added. Stored numbers are finite, so the sum is finite
  or \<open>NaN\<close>.\<close>

definition is_string :: "jsval \<Rightarrow> bool" where
  "is_string v = (case v of JStr s \<Rightarrow> True | _ \<Rightarrow> False)"

definition js_add_number :: "jsval \<Rightarrow> jsval \<Rightarrow> jsnum" where
  "js_add_number a b =
     (if is_string a \<or> is_string b then string_to_number (to_string a @ to_string b)
      else (case (to_number a, to_number b) of
              (Fin x, Fin y) \<Rightarrow> Fin (x + y)
            | _ \<Rightarrow> NaN))"

text \<open>\<open>a < b\<close> and \<open>a > b\<close> on numbers: false when either side is \<open>NaN\<close>.\<close>

fun js_lt :: "jsnum \<Rightarrow> jsnum \<Rightarrow> bool" where
  "js_lt (Fin a) (Fin b) = (a < b)"
| "js_lt NaN _ = False"
| "js_lt _ NaN = False"
| "js_lt PosInf _ = False"
| "js_lt _ NegInf = False"
| "js_lt NegInf _ = True"
| "js_lt (Fin a) PosInf = True"

definition js_gt :: "jsnum \<Rightarrow> jsnum \<Rightarrow> bool" where
  "js_gt a b = js_lt b a"

section \<open>Regular expressions\<close>

text \<open>
  A regular expression of the source is written with the matchers below, in
  continuation-passing style as in the ECMAScript semantics: a matcher takes the rest of
  the input and a continuation for what follows it in the pattern, and the first success
  in backtracking order is the result. \<open>match_literal\<close> is a literal text,
  \<open>star_greedy p\<close> is \<open>p*\<close> (longest run first), \<open>star_lazy p\<close> is \<open>p*?\<close>
  (shortest run first), for a character class \<open>p\<close>.
\<close>

definition match_literal :: "jsstring \<Rightarrow> jsstring \<Rightarrow> (jsstring \<Rightarrow> 'r option) \<Rightarrow> 'r option" where
  "match_literal w s k = (case strip_prefix w s of None \<Rightarrow> None | Some rest \<Rightarrow> k rest)"

primrec star_greedy :: "(nat \<Rightarrow> bool) \<Rightarrow> jsstring \<Rightarrow> (jsstring \<Rightarrow> 'r option) \<Rightarrow> 'r option" where
  "star_greedy p [] k = k []"
| "star_greedy p (c # cs) k =
     (if p c then (case star_greedy p cs k of Some r \<Rightarrow> Some r | None \<Rightarrow> k (c # cs))
      else k (c # cs))"

primrec star_lazy :: "(nat \<Rightarrow> bool) \<Rightarrow> jsstring \<Rightarrow> (jsstring \<Rightarrow> 'r option) \<Rightarrow> 'r option" where
  "star_lazy p [] k = k []"
| "star_lazy p (c # cs) k =
     (case k (c # cs) of Some r \<Rightarrow> Some r | None \<Rightarrow> if p c then star_lazy p cs k else None)"

text \<open>The text of \<open>s\<close> that a matcher consumed when \<open>rest\<close> is what it left.\<close>

definition consumed :: "jsstring \<Rightarrow> jsstring \<Rightarrow> jsstring" where
  "consumed s rest = take (length s - length rest) s"

text \<open>The leftmost match: the pattern is tried at every position from the start of
  \<open>s\<close> to its end.\<close>

primrec search :: "(jsstring \<Rightarrow> 'm option) \<Rightarrow> jsstring \<Rightarrow> 'm option" where
  "search m [] = m []"
| "search m (c # cs) = (case m (c # cs) of Some r \<Rightarrow> Some r | None \<Rightarrow> search m cs)"

section \<open>latexDiff.js\<close>

record regex_match =
  whole :: jsstring
  group1 :: jsstring
  group2 :: jsstring
  after :: jsstring

definition fence_open :: jsstring where
  "fence_open = ascii ''```latex-diff''"

definition fence_close :: jsstring where
  "fence_close = ascii ''```''"

definition at_at :: jsstring where
  "at_at = ascii ''@@''"

text \<open>\<^verbatim>\<open>/```latex-diff\s*\n@@\s*(.*?)\s*@@\s*\n([\s\S]*?)```/\<close> tried at the start of \<open>s\<close>.\<close>

definition blockRegex :: "jsstring \<Rightarrow> regex_match option" where
  "blockRegex s =
     match_literal fence_open s (\<lambda>s1.
     star_greedy is_space s1 (\<lambda>s2.
     match_literal [newline] s2 (\<lambda>s3.
     match_literal at_at s3 (\<lambda>s4.
     star_greedy is_space s4 (\<lambda>s5.
     star_lazy is_dot s5 (\<lambda>s6.
     star_greedy is_space s6 (\<lambda>s7.
     match_literal at_at s7 (\<lambda>s8.
     star_greedy is_space s8 (\<lambda>s9.
     match_literal [newline] s9 (\<lambda>s10.
     star_lazy is_any s10 (\<lambda>s11.
     match_literal fence_close s11 (\<lambda>s12.
       Some \<lparr>whole = consumed s s12, group1 = consumed s5 s6,
             group2 = consumed s10 s11, after = s12\<rparr>))))))))))))"

text \<open>\<^verbatim>\<open>/```latex-diff\s*\n@@.*?@@/\<close> tried at the start of \<open>s\<close>.\<close>

definition markerRegex :: "jsstring \<Rightarrow> unit option" where
  "markerRegex s =
     match_literal fence_open s (\<lambda>s1.
     star_greedy is_space s1 (\<lambda>s2.
     match_literal [newline] s2 (\<lambda>s3.
     match_literal at_at s3 (\<lambda>s4.
     star_lazy is_dot s4 (\<lambda>s5.
     match_literal at_at s5 (\<lambda>s6. Some ()))))))"

record diffBlock =
  operation :: jsval
  line :: jsval
  deleteCount :: jsval
  insertContent :: jsstring
  metadata :: "jsstring \<rightharpoonup> jsval"
  raw :: jsstring

text \<open>Reading a property of the metadata object: \<open>undefined\<close> when it was never set.\<close>

definition get_prop :: "(jsstring \<rightharpoonup> jsval) \<Rightarrow> string \<Rightarrow> jsval" where
  "get_prop md k = (case md (ascii k) of None \<Rightarrow> JUndefined | Some v \<Rightarrow> v)"

text \<open>One pass of the loop over \<open>metadataPairs\<close>. Assigning a number or a string to
  \<open>__proto__\<close> of an object literal leaves the object as it is.\<close>

definition add_pair :: "(jsstring \<rightharpoonup> jsval) \<Rightarrow> jsstring \<Rightarrow> (jsstring \<rightharpoonup> jsval)" where
  "add_pair md pair =
     (case js_split 58 pair of
        key # val # _ \<Rightarrow>
          if key \<noteq> [] then
            (if key = ascii ''__proto__'' then md
             else md(key \<mapsto> (if js_isNaN val then JStr val else js_parseInt val)))
          else md
      | _ \<Rightarrow> md)"

definition parse_metadata :: "jsstring \<Rightarrow> (jsstring \<rightharpoonup> jsval)" where
  "parse_metadata metadataStr = foldl add_pair Map.empty (split_ws metadataStr)"

text \<open>The body of the \<open>while\<close> loop for one match: \<open>None\<close> is the \<open>continue\<close> of a block
  without \<open>operation\<close> or \<open>line\<close>.\<close>

definition block_of_match :: "regex_match \<Rightarrow> diffBlock option" where
  "block_of_match m =
     (let md = parse_metadata (group1 m);
          code = group2 m
      in if \<not> truthy (get_prop md ''operation'') \<or> get_prop md ''line'' = JUndefined then None
         else
           let md' = (if get_prop md ''operation'' = JStr (ascii ''delete'') \<and> \<not> truthy (get_prop md ''delete'')
                      then md(ascii ''delete'' \<mapsto> JNum 1) else md)
           in Some \<lparr>operation = get_prop md' ''operation'',
                     line = get_prop md' ''line'',
                     deleteCount = js_or (get_prop md' ''delete'')
                        (if get_prop md' ''operation'' = JStr (ascii ''delete'') then JNum 1 else JNum 0),
                     insertContent = js_trim code,
                     metadata = md',
                     raw = whole m\<rparr>)"

subsection \<open>What a match consumes\<close>

lemma strip_prefix_Some: "strip_prefix w s = Some r \<Longrightarrow> s = w @ r"
  by (induction w s rule: strip_prefix.induct) (auto split: if_splits)

lemma strip_prefix_append: "strip_prefix w (w @ r) = Some r"
  by (induction w) auto

lemma match_literalE:
  assumes "match_literal w s k = Some r"
  obtains s' where "s = w @ s'" and "k s' = Some r"
  using assms unfolding match_literal_def
  by (auto split: option.splits dest: strip_prefix_Some)

lemma star_greedy_Some:
  "star_greedy p s k = Some r \<Longrightarrow> \<exists>u s'. s = u @ s' \<and> list_all p u \<and> k s' = Some r"
proof (induction s)
  case Nil
  then show ?case by simp
next
  case (Cons c cs)
  show ?case
  proof (cases "p c \<and> star_greedy p cs k = Some r")
    case True
    with Cons.IH obtain u s' where "cs = u @ s'" "list_all p u" "k s' = Some r"
      by blast
    with True have "c # cs = (c # u) @ s' \<and> list_all p (c # u) \<and> k s' = Some r"
      by simp
    then show ?thesis by blast
  next
    case False
    with Cons.prems have "k (c # cs) = Some r"
      by (auto split: if_splits option.splits)
    then have "c # cs = [] @ (c # cs) \<and> list_all p [] \<and> k (c # cs) = Some r"
      by simp
    then show ?thesis by blast
  qed
qed

lemma star_greedyE:
  assumes "star_greedy p s k = Some r"
  obtains u s' where "s = u @ s'" and "list_all p u" and "k s' = Some r"
  using star_greedy_Some [OF assms] by blast

lemma star_lazy_Some:
  "star_lazy p s k = Some r \<Longrightarrow> \<exists>u s'. s = u @ s' \<and> list_all p u \<and> k s' = Some r"
proof (induction s)
  case Nil
  then show ?case by simp
next
  case (Cons c cs)
  show ?case
  proof (cases "k (c # cs)")
    case (Some r')
    with Cons.prems have "c # cs = [] @ (c # cs) \<and> list_all p [] \<and> k (c # cs) = Some r"
      by simp
    then show ?thesis by blast
  next
    case None
    with Cons.prems have pc: "p c" and "star_lazy p cs k = Some r"
      by (auto split: if_splits)
    with Cons.IH obtain u s' where "cs = u @ s'" "list_all p u" "k s' = Some r"
      by blast
    with pc have "c # cs = (c # u) @ s' \<and> list_all p (c # u) \<and> k s' = Some r"
      by simp
    then show ?thesis by blast
  qed
qed

lemma star_lazyE:
  assumes "star_lazy p s k = Some r"
  obtains u s' where "s = u @ s'" and "list_all p u" and "k s' = Some r"
  using star_lazy_Some [OF assms] by blast

lemma search_Some: "search m s = Some r \<Longrightarrow> \<exists>u s'. s = u @ s' \<and> m s' = Some r"
proof (induction s)
  case Nil
  then show ?case by simp
next
  case (Cons c cs)
  show ?case
  proof (cases "m (c # cs)")
    case (Some r')
    with Cons.prems have "c # cs = [] @ (c # cs) \<and> m (c # cs) = Some r"
      by simp
    then show ?thesis by blast
  next
    case None
    with Cons.prems Cons.IH obtain u s' where "cs = u @ s'" "m s' = Some r"
      by auto
    then have "c # cs = (c # u) @ s' \<and> m s' = Some r"
      by simp
    then show ?thesis by blast
  qed
qed

text \<open>The shape of every text the block pattern matches.\<close>

lemma blockRegex_Some:
  assumes "blockRegex s = Some m"
  obtains w1 w2 g1 w3 w4 g2 rest where
    "s = fence_open @ w1 @ [newline] @ at_at @ w2 @ g1 @ w3 @ at_at @ w4 @ [newline] @ g2 @ fence_close @ rest"
    and "list_all is_space w1" and "list_all is_space w2" and "list_all is_dot g1"
    and "list_all is_space w3" and "list_all is_space w4"
    and "m = \<lparr>whole = consumed s rest, group1 = g1, group2 = g2, after = rest\<rparr>"
proof -
  from assms obtain s1 where s1: "s = fence_open @ s1"
    and k1: "star_greedy is_space s1 (\<lambda>s2.
     match_literal [newline] s2 (\<lambda>s3.
     match_literal at_at s3 (\<lambda>s4.
     star_greedy is_space s4 (\<lambda>s5.
     star_lazy is_dot s5 (\<lambda>s6.
     star_greedy is_space s6 (\<lambda>s7.
     match_literal at_at s7 (\<lambda>s8.
     star_greedy is_space s8 (\<lambda>s9.
     match_literal [newline] s9 (\<lambda>s10.
     star_lazy is_any s10 (\<lambda>s11.
     match_literal fence_close s11 (\<lambda>s12.
       Some \<lparr>whole = consumed s s12, group1 = consumed s5 s6,
             group2 = consumed s10 s11, after = s12\<rparr>))))))))))) = Some m"
    unfolding blockRegex_def by (erule match_literalE)
  from k1 obtain w1 s2 where s2: "s1 = w1 @ s2" "list_all is_space w1"
    and k2: "match_literal [newline] s2 (\<lambda>s3.
     match_literal at_at s3 (\<lambda>s4.
     star_greedy is_space s4 (\<lambda>s5.
     star_lazy is_dot s5 (\<lambda>s6.
     star_greedy is_space s6 (\<lambda>s7.
     match_literal at_at s7 (\<lambda>s8.
     star_greedy is_space s8 (\<lambda>s9.
     match_literal [newline] s9 (\<lambda>s10.
     star_lazy is_any s10 (\<lambda>s11.
     match_literal fence_close s11 (\<lambda>s12.
       Some \<lparr>whole = consumed s s12, group1 = consumed s5 s6,
             group2 = consumed s10 s11, after = s12\<rparr>)))))))))) = Some m"
    by (erule star_greedyE)
  from k2 obtain s4 where s4: "s2 = [newline] @ at_at @ s4"
    and k4: "star_greedy is_space s4 (\<lambda>s5.
     star_lazy is_dot s5 (\<lambda>s6.
     star_greedy is_space s6 (\<lambda>s7.
     match_literal at_at s7 (\<lambda>s8.
     star_greedy is_space s8 (\<lambda>s9.
     match_literal [newline] s9 (\<lambda>s10.
     star_lazy is_any s10 (\<lambda>s11.
     match_literal fence_close s11 (\<lambda>s12.
       Some \<lparr>whole = consumed s s12, group1 = consumed s5 s6,
             group2 = consumed s10 s11, after = s12\<rparr>)))))))) = Some m"
    by (elim match_literalE) auto
  from k4 obtain w2 s5 where s5: "s4 = w2 @ s5" "list_all is_space w2"
    and k5: "star_lazy is_dot s5 (\<lambda>s6.
     star_greedy is_space s6 (\<lambda>s7.
     match_literal at_at s7 (\<lambda>s8.
     star_greedy is_space s8 (\<lambda>s9.
     match_literal [newline] s9 (\<lambda>s10.
     star_lazy is_any s10 (\<lambda>s11.
     match_literal fence_close s11 (\<lambda>s12.
       Some \<lparr>whole = consumed s s12, group1 = consumed s5 s6,
             group2 = consumed s10 s11, after = s12\<rparr>))))))) = Some m"
    by (erule star_greedyE)
  from k5 obtain g1 s6 where s6: "s5 = g1 @ s6" "list_all is_dot g1"
    and k6: "star_greedy is_space s6 (\<lambda>s7.
     match_literal at_at s7 (\<lambda>s8.
     star_greedy is_space s8 (\<lambda>s9.
     match_literal [newline] s9 (\<lambda>s10.
     star_lazy is_any s10 (\<lambda>s11.
     match_literal fence_close s11 (\<lambda>s12.
       Some \<lparr>whole = consumed s s12, group1 = consumed s5 s6,
             group2 = consumed s10 s11, after = s12\<rparr>)))))) = Some m"
    by (erule star_lazyE)
  from k6 obtain w3 s7 where s7: "s6 = w3 @ s7" "list_all is_space w3"
    and k7: "match_literal at_at s7 (\<lambda>s8.
     star_greedy is_space s8 (\<lambda>s9.
     match_literal [newline] s9 (\<lambda>s10.
     star_lazy is_any s10 (\<lambda>s11.
     match_literal fence_close s11 (\<lambda>s12.
       Some \<lparr>whole = consumed s s12, group1 = consumed s5 s6,
             group2 = consumed s10 s11, after = s12\<rparr>))))) = Some m"
    by (erule star_greedyE)
  from k7 obtain s8 where s8: "s7 = at_at @ s8"
    and k8: "star_greedy is_space s8 (\<lambda>s9.
     match_literal [newline] s9 (\<lambda>s10.
     star_lazy is_any s10 (\<lambda>s11.
     match_literal fence_close s11 (\<lambda>s12.
       Some \<lparr>whole = consumed s s12, group1 = consumed s5 s6,
             group2 = consumed s10 s11, after = s12\<rparr>)))) = Some m"
    by (erule match_literalE)
  from k8 obtain w4 s9 where s9: "s8 = w4 @ s9" "list_all is_space w4"
    and k9: "match_literal [newline] s9 (\<lambda>s10.
     star_lazy is_any s10 (\<lambda>s11.
     match_literal fence_close s11 (\<lambda>s12.
       Some \<lparr>whole = consumed s s12, group1 = consumed s5 s6,
             group2 = consumed s10 s11, after = s12\<rparr>))) = Some m"
    by (erule star_greedyE)
  from k9 obtain s10 where s10: "s9 = [newline] @ s10"
    and k10: "star_lazy is_any s10 (\<lambda>s11.
     match_literal fence_close s11 (\<lambda>s12.
       Some \<lparr>whole = consumed s s12, group1 = consumed s5 s6,
             group2 = consumed s10 s11, after = s12\<rparr>)) = Some m"
    by (erule match_literalE)
  from k10 obtain g2 s11 where s11: "s10 = g2 @ s11" "list_all is_any g2"
    and k11: "match_literal fence_close s11 (\<lambda>s12.
       Some \<lparr>whole = consumed s s12, group1 = consumed s5 s6,
             group2 = consumed s10 s11, after = s12\<rparr>) = Some m"
    by (erule star_lazyE)
  from k11 obtain rest where s12: "s11 = fence_close @ rest"
    and m: "m = \<lparr>whole = consumed s rest, group1 = consumed s5 s6,
             group2 = consumed s10 s11, after = rest\<rparr>"
    by (elim match_literalE) auto
  have "s = fence_open @ w1 @ [newline] @ at_at @ w2 @ g1 @ w3 @ at_at @ w4 @ [newline] @ g2 @ fence_close @ rest"
    using s1 s2 s4 s5 s6 s7 s8 s9 s10 s11 s12 by simp
  moreover have "m = \<lparr>whole = consumed s rest, group1 = g1, group2 = g2, after = rest\<rparr>"
    using m s6 s11 by (simp add: consumed_def)
  ultimately show ?thesis
    using that s2 s5 s6 s7 s9 by blast
qed

lemma blockRegex_after_shorter: "blockRegex s = Some m \<Longrightarrow> length (after m) < length s"
  by (erule blockRegex_Some) (simp add: fence_open_def ascii_def)

lemma search_blockRegex_shorter:
  "search blockRegex s = Some m \<Longrightarrow> length (after m) < length s"
  by (auto dest!: search_Some blockRegex_after_shorter)

text \<open>The definitions that evaluate a pattern on a given text.\<close>

lemmas regex_eval =
  match_literal_def fence_open_def fence_close_def at_at_def ascii_def newline_def
  is_space_def is_dot_def is_any_def consumed_def

subsection \<open>parseLatexDiff\<close>

text \<open>
  The \<open>while ((match = blockRegex.exec(content)) !== null)\<close> loop. With the \<open>g\<close> flag each
  \<open>exec\<close> searches from the end of the previous match; the pattern looks at nothing
  before its start, so this is the search in the text after the previous match.
\<close>

function parse_blocks :: "jsstring \<Rightarrow> diffBlock list" where
  "parse_blocks s =
     (case search blockRegex s of
        None \<Rightarrow> []
      | Some m \<Rightarrow>
          (case block_of_match m of
             None \<Rightarrow> parse_blocks (after m)
           | Some b \<Rightarrow> b # parse_blocks (after m)))"
  by pat_completeness auto
termination
  by (relation "measure length") (auto dest: search_blockRegex_shorter)

definition parseLatexDiff :: "jsstring \<Rightarrow> diffBlock list" where
  "parseLatexDiff content = parse_blocks content"

subsection \<open>hasLatexDiffs\<close>

definition hasLatexDiffs :: "jsstring \<Rightarrow> bool" where
  "hasLatexDiffs content = (search markerRegex content \<noteq> None)"

subsection \<open>applyLatexDiffs\<close>

text \<open>Truncation towards zero (ToIntegerOrInfinity on a finite number).\<close>

definition trunc :: "rat \<Rightarrow> int" where
  "trunc q = (if 0 \<le> q then \<lfloor>q\<rfloor> else \<lceil>q\<rceil>)"

text \<open>\<open>xs.splice(start, deleteCount, ...items)\<close>, the array afterwards: \<open>start\<close> counts
  from the end when negative and is clamped to the array, \<open>deleteCount\<close> is clamped to
  what is left after \<open>start\<close>, \<open>NaN\<close> counts as 0.\<close>

definition splice_start :: "nat \<Rightarrow> jsnum \<Rightarrow> nat" where
  "splice_start len start =
     (case start of
        NaN \<Rightarrow> 0
      | NegInf \<Rightarrow> 0
      | PosInf \<Rightarrow> len
      | Fin q \<Rightarrow> if trunc q < 0 then nat (max (int len + trunc q) 0) else min (nat (trunc q)) len)"

definition splice_count :: "nat \<Rightarrow> jsnum \<Rightarrow> nat" where
  "splice_count avail dc =
     (case dc of
        NaN \<Rightarrow> 0
      | NegInf \<Rightarrow> 0
      | PosInf \<Rightarrow> avail
      | Fin q \<Rightarrow> nat (min (max (trunc q) 0) (int avail)))"

definition js_splice :: "'a list \<Rightarrow> jsnum \<Rightarrow> jsnum \<Rightarrow> 'a list \<Rightarrow> 'a list" where
  "js_splice xs start dc items =
     (let a = splice_start (length xs) start;
          d = splice_count (length xs - a) dc
      in take a xs @ items @ drop (a + d) xs)"

text \<open>\<open>insertContent ? insertContent.split('\n') : []\<close>\<close>

definition insert_lines :: "diffBlock \<Rightarrow> jsstring list" where
  "insert_lines block =
     (if insertContent block \<noteq> [] then js_split newline (insertContent block) else [])"

text \<open>The body of the \<open>for\<close> loop: the \<open>switch\<close> on \<open>operation\<close> for one block.\<close>

definition apply_block :: "jsstring list \<Rightarrow> diffBlock \<Rightarrow> jsstring list" where
  "apply_block lines block =
     (let zeroBasedLine = js_sub (to_number (line block)) (Fin 1)
      in if operation block = JStr (ascii ''add'') then
           js_splice lines zeroBasedLine (Fin 0) (insert_lines block)
         else if operation block = JStr (ascii ''replace'') then
           js_splice lines zeroBasedLine (to_number (js_or (deleteCount block) (JNum 1)))
             (insert_lines block)
         else if operation block = JStr (ascii ''delete'') then
           js_splice lines zeroBasedLine (to_number (js_or (deleteCount block) (JNum 1))) []
         else lines)"

text \<open>
  \<open>[...xs].sort(cmp)\<close>: a stable sort that puts \<open>x\<close> after \<open>y\<close> when \<open>cmp(x, y) > 0\<close>; a
  comparator result \<open>NaN\<close> counts as 0. For a comparator that is a consistent order
  (here: every \<open>line\<close> a number) this fixes the result. For others ECMAScript leaves
  the order to the implementation; the insertion sort below is one such order, and an
  engine may return another one on a batch with a \<open>line\<close> that is not a number. Nothing
  is proved below about such a batch except where every comparison of neighbours is
  \<open>NaN\<close>, so that the batch is one ascending run and no element moves.
\<close>

fun insert_sorted :: "('a \<Rightarrow> 'a \<Rightarrow> jsnum) \<Rightarrow> 'a \<Rightarrow> 'a list \<Rightarrow> 'a list" where
  "insert_sorted cmp x [] = [x]"
| "insert_sorted cmp x (y # ys) =
     (if js_gt (cmp x y) (Fin 0) then y # insert_sorted cmp x ys else x # y # ys)"

definition js_sort :: "('a \<Rightarrow> 'a \<Rightarrow> jsnum) \<Rightarrow> 'a list \<Rightarrow> 'a list" where
  "js_sort cmp xs = foldr (insert_sorted cmp) xs []"

text \<open>\<open>[...diffBlocks].sort((a, b) => b.line - a.line)\<close>\<close>

definition sortedBlocks :: "diffBlock list \<Rightarrow> diffBlock list" where
  "sortedBlocks diffBlocks =
     js_sort (\<lambda>a b. js_sub (to_number (line b)) (to_number (line a))) diffBlocks"

definition applyLatexDiffs :: "jsstring \<Rightarrow> diffBlock list \<Rightarrow> jsstring" where
  "applyLatexDiffs originalContent diffBlocks =
     js_join newline (foldl apply_block (js_split newline originalContent) (sortedBlocks diffBlocks))"

subsection \<open>validateDiffBlock\<close>

text \<open>An entry of \<open>errors\<close>: the message template with the values it interpolates.
  \<open>LineOutOfRange line n\<close> is \<^verbatim>\<open>Line ${line} is out of range (content has ${n} lines)\<close>,
  \<open>CannotDeleteReplace line endLine n\<close> is
  \<^verbatim>\<open>Cannot delete/replace lines ${line}-${endLine} (content only has ${n} lines)\<close>.\<close>

datatype validation_error =
    LineOutOfRange jsval nat
  | CannotDeleteReplace jsval jsnum nat

record validation =
  valid :: bool
  errors :: "validation_error list"

definition validateDiffBlock :: "jsstring \<Rightarrow> diffBlock \<Rightarrow> validation" where
  "validateDiffBlock content diffBlock =
     (let lines = js_split newline content;
          errors1 =
            (if js_lt (to_number (line diffBlock)) (Fin 1)
                \<or> js_gt (to_number (line diffBlock)) (Fin (of_nat (length lines + 1)))
             then [LineOutOfRange (line diffBlock) (length lines)] else []);
          endLine = js_sub (js_add_number (line diffBlock) (js_or (deleteCount diffBlock) (JNum 1))) (Fin 1);
          errors2 =
            (if operation diffBlock = JStr (ascii ''replace'') \<or> operation diffBlock = JStr (ascii ''delete'')
             then (if js_gt endLine (Fin (of_nat (length lines)))
                   then errors1 @ [CannotDeleteReplace (line diffBlock) endLine (length lines)]
                   else errors1)
             else errors1)
      in \<lparr>valid = (length errors2 = 0), errors = errors2\<rparr>)"

section \<open>The agent: document store and undo history\<close>

text \<open>
  The module variables \<open>documentContent\<close>, \<open>changeCallback\<close> and \<open>undoHistory\<close> are the
  fields of the state. A registered callback is an opaque function of the page: it is
  named by a handle, and each call \<open>changeCallback(documentContent)\<close> is appended to
  \<open>notified\<close> with the text it was given. \<open>clock\<close> is what \<open>new Date()\<close> reads.
\<close>

record undo_entry =
  content :: jsstring
  description :: jsstring
  timestamp :: nat

record agent_state =
  documentContent :: jsstring
  changeCallback :: "nat option"
  undoHistory :: "undo_entry list"
  clock :: nat
  notified :: "(nat \<times> jsstring) list"

definition MAX_UNDO_HISTORY :: nat where
  "MAX_UNDO_HISTORY = 20"

text \<open>The state when the module is loaded.\<close>

definition initial_state :: agent_state where
  "initial_state =
     \<lparr>documentContent = [], changeCallback = None, undoHistory = [], clock = 0, notified = []\<rparr>"

definition initializeDocument :: "jsstring \<Rightarrow> nat option \<Rightarrow> agent_state \<Rightarrow> agent_state" where
  "initializeDocument c onChangeCallback st =
     st\<lparr>documentContent := c, changeCallback := onChangeCallback\<rparr>"

definition getDocument :: "agent_state \<Rightarrow> jsstring" where
  "getDocument st = documentContent st"

text \<open>\<open>xs.slice(-n)\<close>: the last \<open>n\<close> elements.\<close>

definition slice_last :: "nat \<Rightarrow> 'a list \<Rightarrow> 'a list" where
  "slice_last n xs = drop (length xs - n) xs"

definition addToUndoHistory :: "jsstring \<Rightarrow> jsstring \<Rightarrow> agent_state \<Rightarrow> agent_state" where
  "addToUndoHistory c d st =
     (let pushed = undoHistory st @ [\<lparr>content = c, description = d, timestamp = clock st\<rparr>]
      in st\<lparr>undoHistory :=
              (if length pushed > MAX_UNDO_HISTORY then slice_last MAX_UNDO_HISTORY pushed
               else pushed)\<rparr>)"

text \<open>\<open>if (changeCallback) { changeCallback(documentContent); }\<close>\<close>

definition notify :: "agent_state \<Rightarrow> agent_state" where
  "notify st =
     (case changeCallback st of
        None \<Rightarrow> st
      | Some cb \<Rightarrow> st\<lparr>notified := notified st @ [(cb, documentContent st)]\<rparr>)"

definition setDocument :: "jsstring \<Rightarrow> bool \<Rightarrow> agent_state \<Rightarrow> agent_state" where
  "setDocument newContent addToHistory st =
     (let st1 = (if addToHistory \<and> documentContent st \<noteq> newContent
                 then addToUndoHistory (documentContent st) (ascii ''Document replaced'') st
                 else st)
      in notify (st1\<lparr>documentContent := newContent\<rparr>))"

text \<open>\<^verbatim>\<open>/```latex\n([\s\S]*?)\n```/\<close> tried at the start of \<open>s\<close>; the result is group 1.\<close>

definition latexRegex :: "jsstring \<Rightarrow> jsstring option" where
  "latexRegex s =
     match_literal (ascii ''```latex\<newline>'') s (\<lambda>s1.
     star_lazy is_any s1 (\<lambda>s2.
     match_literal (ascii ''\<newline>```'') s2 (\<lambda>s3. Some (consumed s1 s2))))"

text \<open>
  What \<open>askAI\<close> returns, by branch: the diff branch (\<open>hasDiffs\<close>, \<open>autoApplied\<close>) with the
  response and the blocks, the full replacement with the response and the new content,
  and no update with the response. The \<open>changes\<close> of the diff branch are the previews,
  which touch no state and are left out.
\<close>

datatype ask_result =
    DiffsApplied jsstring "diffBlock list"
  | DocumentReplaced jsstring jsstring
  | NotUpdated jsstring

text \<open>
  \<open>askAI\<close> from the point where the stream has ended: \<open>fullResponse\<close> is the text that the
  reads of the response body accumulated. Before that point the function changes no
  module variable, and a failed request throws before this point is reached.
\<close>

definition askAI :: "jsstring \<Rightarrow> agent_state \<Rightarrow> ask_result \<times> agent_state" where
  "askAI fullResponse st =
     (if hasLatexDiffs fullResponse then
        let diffBlocks = parseLatexDiff fullResponse;
            previousContent = documentContent st;
            newContent = applyLatexDiffs (documentContent st) diffBlocks;
            st1 = addToUndoHistory previousContent
                    (ascii ''Applied '' @ show_nat (length diffBlocks) @ ascii '' diff changes'') st
        in (DiffsApplied fullResponse diffBlocks, notify (st1\<lparr>documentContent := newContent\<rparr>))
      else
        (case search latexRegex fullResponse of
           Some newContent \<Rightarrow> (DocumentReplaced fullResponse newContent, setDocument newContent True st)
         | None \<Rightarrow> (NotUpdated fullResponse, st)))"

definition applyDiffs :: "diffBlock list \<Rightarrow> agent_state \<Rightarrow> jsstring \<times> agent_state" where
  "applyDiffs diffBlocks st =
     (let newContent = applyLatexDiffs (documentContent st) diffBlocks
      in (newContent, setDocument newContent True st))"

definition applySingleDiff :: "diffBlock \<Rightarrow> agent_state \<Rightarrow> jsstring \<times> agent_state" where
  "applySingleDiff diffBlock st = applyDiffs [diffBlock] st"

definition undoLastChange :: "agent_state \<Rightarrow> bool \<times> agent_state" where
  "undoLastChange st =
     (if length (undoHistory st) = 0 then (False, st)
      else
        let lastEntry = last (undoHistory st);
            st1 = st\<lparr>undoHistory := butlast (undoHistory st)\<rparr>
        in (True, setDocument (content lastEntry) False st1))"

definition getUndoHistory :: "agent_state \<Rightarrow> undo_entry list" where
  "getUndoHistory st = undoHistory st"

definition canUndo :: "agent_state \<Rightarrow> bool" where
  "canUndo st = (length (undoHistory st) > 0)"

definition clearUndoHistory :: "agent_state \<Rightarrow> agent_state" where
  "clearUndoHistory st = st\<lparr>undoHistory := []\<rparr>"

text \<open>
  The calls a client of the module can make that may change its state, and time passing.
  \<open>getDocument\<close>, \<open>previewDiffs\<close>, \<open>getUndoHistory\<close> and \<open>canUndo\<close> only read.
\<close>

datatype agent_call =
    InitializeDocument jsstring "nat option"
  | SetDocument jsstring bool
  | AskAI jsstring
  | ApplyDiffs "diffBlock list"
  | ApplySingleDiff diffBlock
  | UndoLastChange
  | ClearUndoHistory
  | Tick nat

fun run_call :: "agent_state \<Rightarrow> agent_call \<Rightarrow> agent_state" where
  "run_call st (InitializeDocument c cb) = initializeDocument c cb st"
| "run_call st (SetDocument c h) = setDocument c h st"
| "run_call st (AskAI r) = snd (askAI r st)"
| "run_call st (ApplyDiffs bs) = snd (applyDiffs bs st)"
| "run_call st (ApplySingleDiff b) = snd (applySingleDiff b st)"
| "run_call st UndoLastChange = snd (undoLastChange st)"
| "run_call st ClearUndoHistory = clearUndoHistory st"
| "run_call st (Tick t) = st\<lparr>clock := t\<rparr>"

definition run_calls :: "agent_call list \<Rightarrow> agent_state" where
  "run_calls calls = foldl run_call initial_state calls"

section \<open>Notions for stating the properties\<close>

text \<open>The line number of a block whose \<open>line\<close> is a number.\<close>

definition line_number :: "diffBlock \<Rightarrow> int" where
  "line_number b = (case line b of JNum n \<Rightarrow> n | _ \<Rightarrow> 0)"

definition has_line_number :: "diffBlock \<Rightarrow> bool" where
  "has_line_number b = (case line b of JNum n \<Rightarrow> True | _ \<Rightarrow> False)"

text \<open>\<open>deleteCount || 1\<close> for a \<open>deleteCount\<close> that is not a string: 1 when it is 0, \<open>NaN\<close> or
  \<open>undefined\<close>.\<close>

definition effective_count :: "jsval \<Rightarrow> int" where
  "effective_count dc = (case dc of JNum d \<Rightarrow> if d = 0 then 1 else d | _ \<Rightarrow> 1)"

text \<open>
  The condition of claim C8 in its own words, for comparison with \<open>validateDiffBlock\<close>:
  \<open>1 \<le> line \<le> lineCount + 1\<close> and, for replace and delete,
  \<open>line + deleteCount - 1 \<le> lineCount\<close> with \<open>deleteCount\<close> taken as 1 when 0 or unset. A
  \<open>line\<close> or \<open>deleteCount\<close> that is not a number satisfies no such inequality.
\<close>

definition claimed_valid :: "jsstring \<Rightarrow> diffBlock \<Rightarrow> bool" where
  "claimed_valid txt b =
     (case line b of
        JNum l \<Rightarrow>
          1 \<le> l \<and> l \<le> int (length (js_split newline txt)) + 1
          \<and> (if operation b = JStr (ascii ''replace'') \<or> operation b = JStr (ascii ''delete'')
              then (case js_or (deleteCount b) (JNum 1) of
                      JNum d \<Rightarrow> l + d - 1 \<le> int (length (js_split newline txt))
                    | _ \<Rightarrow> False)
              else True)
      | _ \<Rightarrow> False)"

text \<open>
  How many lines \<open>splice(start, deleteCount || 1)\<close> asks to remove: the count itself when
  it is a positive number, 1 when it is 0, \<open>NaN\<close>, \<open>undefined\<close> or the empty string, and
  none when it is negative or a string that is not a number.
\<close>

definition lines_removed :: "jsval \<Rightarrow> nat" where
  "lines_removed dc =
     (case dc of
        JNum d \<Rightarrow> if d = 0 then 1 else nat d
      | JStr s \<Rightarrow> if s = [] then 1 else 0
      | _ \<Rightarrow> 1)"

text \<open>What follows the last newline of a text.\<close>

definition after_last_newline :: "jsstring \<Rightarrow> jsstring" where
  "after_last_newline w = rev (takeWhile (\<lambda>c. c \<noteq> newline) (rev w))"

section \<open>Properties of the applicator and the validator\<close>

lemma trunc_of_int: "trunc (of_int z) = z"
  by (simp add: trunc_def)

lemma js_splice_int:
  assumes "0 \<le> z" and "0 \<le> d"
  shows "js_splice xs (Fin (of_int z)) (Fin (of_int d)) items
         = take (nat z) xs @ items @ drop (nat z + nat d) xs"
proof (cases "nat z \<le> length xs")
  case True
  with assms show ?thesis
    by (auto simp add: js_splice_def splice_start_def splice_count_def trunc_of_int Let_def
        min_def max_def)
next
  case False
  with assms show ?thesis
    by (auto simp add: js_splice_def splice_start_def splice_count_def trunc_of_int Let_def
        min_def max_def)
qed

lemma js_splice_from:
  assumes "0 \<le> z"
  shows "js_splice xs (Fin (of_int z)) (Fin (of_int d)) items
         = take (nat z) xs @ items @ drop (nat z + nat d) xs"
proof (cases "nat z \<le> length xs")
  case True
  with assms show ?thesis
    by (auto simp add: js_splice_def splice_start_def splice_count_def trunc_of_int Let_def
        min_def max_def)
next
  case False
  with assms show ?thesis
    by (auto simp add: js_splice_def splice_start_def splice_count_def trunc_of_int Let_def
        min_def max_def)
qed

lemma to_number_JNum: "to_number (JNum n) = Fin (of_int n)"
  by (simp add: to_number_def)

lemma zero_based: "js_sub (to_number (JNum l)) (Fin 1) = Fin (of_int (l - 1))"
  by (simp add: to_number_def)

lemma sortedBlocks_single: "sortedBlocks [b] = [b]"
  by (simp add: sortedBlocks_def js_sort_def)

lemma insert_sorted_insort:
  assumes "has_line_number x" and "\<forall>y\<in>set ys. has_line_number y"
  shows "insert_sorted (\<lambda>a b. js_sub (to_number (line b)) (to_number (line a))) x ys
         = insort_key (\<lambda>b. - line_number b) x ys"
  using assms
proof (induction ys)
  case Nil
  then show ?case by simp
next
  case (Cons y ys)
  from Cons.prems obtain lx ly where "line x = JNum lx" "line y = JNum ly"
    by (auto simp: has_line_number_def split: jsval.splits)
  with Cons show ?case
    by (simp add: to_number_def js_gt_def line_number_def)
qed

lemma set_insort_key_lines:
  "has_line_number x \<Longrightarrow> \<forall>y\<in>set ys. has_line_number y \<Longrightarrow>
   \<forall>y\<in>set (insort_key f x ys). has_line_number y"
  by (simp add: set_insort_key)

lemma sortedBlocks_sort_key:
  assumes "\<forall>b\<in>set blocks. has_line_number b"
  shows "sortedBlocks blocks = sort_key (\<lambda>b. - line_number b) blocks"
  using assms
proof (induction blocks)
  case Nil
  then show ?case by (simp add: sortedBlocks_def js_sort_def)
next
  case (Cons b blocks)
  then have ih: "sortedBlocks blocks = sort_key (\<lambda>b. - line_number b) blocks"
    by simp
  have "\<forall>y\<in>set (sort_key (\<lambda>b. - line_number b) blocks). has_line_number y"
    using Cons.prems by simp
  with Cons.prems ih show ?case
    using insert_sorted_insort [of b "sort_key (\<lambda>b. - line_number b) blocks"]
    by (simp add: sortedBlocks_def js_sort_def)
qed

lemma js_or_count:
  "\<not> is_string dc \<Longrightarrow> js_or dc (JNum 1) = JNum (effective_count dc)"
  by (cases dc) (simp_all add: js_or_def truthy_def effective_count_def is_string_def)

lemma apply_single:
  "applyLatexDiffs txt [b] = js_join newline (apply_block (js_split newline txt) b)"
  by (simp add: applyLatexDiffs_def sortedBlocks_single)

lemma sorted_wrt_sortedBlocks:
  assumes "\<forall>b\<in>set blocks. has_line_number b"
  shows "sorted_wrt (\<lambda>a b. line_number b \<le> line_number a) (sortedBlocks blocks)"
proof -
  have "sorted (map (\<lambda>b. - line_number b) (sort_key (\<lambda>b. - line_number b) blocks))"
    by (rule sorted_sort_key)
  then show ?thesis
    by (simp add: sortedBlocks_sort_key [OF assms] sorted_map)
qed

lemma stable_sortedBlocks:
  assumes "\<forall>b\<in>set blocks. has_line_number b"
  shows "filter (\<lambda>b. line_number b = n) (sortedBlocks blocks) = filter (\<lambda>b. line_number b = n) blocks"
proof -
  have "filter (\<lambda>b. - line_number b = - n) (sort_key (\<lambda>b. - line_number b) blocks)
        = filter (\<lambda>b. - line_number b = - n) blocks"
    by (rule sort_key_stable)
  then show ?thesis
    by (simp add: sortedBlocks_sort_key [OF assms])
qed

lemma scenario_D_order:
  assumes "line d = JNum 7" and "line a = JNum 2"
  shows "sortedBlocks [d, a] = [d, a]" and "sortedBlocks [a, d] = [d, a]"
  using assms by (simp_all add: sortedBlocks_def js_sort_def to_number_def js_gt_def)

lemma scenario_D_steps:
  assumes "operation d = JStr (ascii ''delete'')" and "line d = JNum 7" and "deleteCount d = JNum 1"
    and "operation a = JStr (ascii ''add'')" and "line a = JNum 2" and "insertContent a = ascii ''A''"
    and "7 \<le> length ls"
  shows "apply_block (apply_block ls d) a
         = take 1 ls @ [ascii ''A''] @ take 5 (drop 1 ls) @ drop 7 ls"
proof -
  have s6: "js_splice xs (Fin 6) (Fin 1) [] = take 6 xs @ drop 7 xs" for xs :: "jsstring list"
    using js_splice_int [of 6 1 xs "[]"] by simp
  have s1: "js_splice xs (Fin 1) (Fin 0) items = take 1 xs @ items @ drop 1 xs"
    for xs items :: "jsstring list"
    using js_splice_int [of 1 0 xs items] by simp
  have d: "apply_block ls d = take 6 ls @ drop 7 ls"
    using assms(1-3) by (simp add: apply_block_def to_number_def js_or_def truthy_def s6 ascii_def)
  have a: "apply_block xs a = take 1 xs @ [ascii ''A''] @ drop 1 xs" for xs
    using assms(4-6) by (simp add: apply_block_def to_number_def s1 insert_lines_def ascii_def newline_def)
  have "drop 1 (take 6 ls) = take 5 (drop 1 ls)"
    by (simp add: drop_take)
  with assms(7) show ?thesis
    by (simp add: d a)
qed

text \<open>The definitions that evaluate the parser on a given text.\<close>

lemmas parse_eval =
  parseLatexDiff_def blockRegex_def regex_eval block_of_match_def parse_metadata_def add_pair_def
  get_prop_def js_isNaN_def string_to_number_def js_trim_def unsigned_decimal_def exponent_part_def
  is_digit_def is_hex_digit_def js_parseInt_def parseInt_digits_def digits_value_def digit_value_def
  prefixed_literal_def jsnum_neg_def scale10_def truthy_def js_or_def Let_def

subsection \<open>C1: application in descending line order\<close>

text \<open>
  Claim C1, as the code has it. \<open>applyLatexDiffs\<close> applies the blocks in the order
  \<open>sortedBlocks\<close>. For a batch whose \<open>line\<close> fields are all numbers, that order is a
  permutation of the batch, descending in \<open>line\<close>, and keeps the input order of blocks
  with equal \<open>line\<close>. Scenario D: on a document of at least 7 lines, a block that
  deletes line 7 and a block that adds \<open>A\<close> at line 2 give, in either input order, line 1,
  then \<open>A\<close>, then lines 2 to 6, then the lines after line 7.
\<close>

theorem descending_order:
  "((\<forall>b\<in>set blocks. has_line_number b) \<longrightarrow>
      applyLatexDiffs txt blocks =
        js_join newline (foldl apply_block (js_split newline txt) (sortedBlocks blocks))
      \<and> mset (sortedBlocks blocks) = mset blocks
      \<and> sorted_wrt (\<lambda>a b. line_number b \<le> line_number a) (sortedBlocks blocks)
      \<and> (\<forall>n. filter (\<lambda>b. line_number b = n) (sortedBlocks blocks)
               = filter (\<lambda>b. line_number b = n) blocks))
   \<and> (operation d = JStr (ascii ''delete'') \<and> line d = JNum 7 \<and> deleteCount d = JNum 1
       \<and> operation a = JStr (ascii ''add'') \<and> line a = JNum 2 \<and> insertContent a = ascii ''A''
       \<and> 7 \<le> length (js_split newline txt) \<longrightarrow>
      applyLatexDiffs txt [d, a] =
        js_join newline (take 1 (js_split newline txt) @ [ascii ''A'']
                         @ take 5 (drop 1 (js_split newline txt)) @ drop 7 (js_split newline txt))
      \<and> applyLatexDiffs txt [a, d] = applyLatexDiffs txt [d, a])"
proof (intro conjI impI allI)
  assume n: "\<forall>b\<in>set blocks. has_line_number b"
  show "applyLatexDiffs txt blocks =
        js_join newline (foldl apply_block (js_split newline txt) (sortedBlocks blocks))"
    by (simp add: applyLatexDiffs_def)
  show "mset (sortedBlocks blocks) = mset blocks"
    by (simp add: sortedBlocks_sort_key [OF n])
  show "sorted_wrt (\<lambda>a b. line_number b \<le> line_number a) (sortedBlocks blocks)"
    by (rule sorted_wrt_sortedBlocks [OF n])
  show "filter (\<lambda>b. line_number b = k) (sortedBlocks blocks) = filter (\<lambda>b. line_number b = k) blocks" for k
    by (rule stable_sortedBlocks [OF n])
next
  assume h: "operation d = JStr (ascii ''delete'') \<and> line d = JNum 7 \<and> deleteCount d = JNum 1
       \<and> operation a = JStr (ascii ''add'') \<and> line a = JNum 2 \<and> insertContent a = ascii ''A''
       \<and> 7 \<le> length (js_split newline txt)"
  then have o: "sortedBlocks [d, a] = [d, a]" "sortedBlocks [a, d] = [d, a]"
    using scenario_D_order by blast+
  from h have "apply_block (apply_block (js_split newline txt) d) a
         = take 1 (js_split newline txt) @ [ascii ''A'']
           @ take 5 (drop 1 (js_split newline txt)) @ drop 7 (js_split newline txt)"
    by (intro scenario_D_steps) simp_all
  then show "applyLatexDiffs txt [d, a] =
        js_join newline (take 1 (js_split newline txt) @ [ascii ''A'']
                         @ take 5 (drop 1 (js_split newline txt)) @ drop 7 (js_split newline txt))"
    by (simp add: applyLatexDiffs_def o)
  show "applyLatexDiffs txt [a, d] = applyLatexDiffs txt [d, a]"
    by (simp add: applyLatexDiffs_def o)
qed

theorem descending_order_witness:
  "has_line_number \<lparr>operation = JStr (ascii ''add''), line = JNum 2, deleteCount = JNum 0,
                  insertContent = ascii ''A'', metadata = Map.empty, raw = []\<rparr>
   \<and> has_line_number \<lparr>operation = JStr (ascii ''delete''), line = JNum 7, deleteCount = JNum 1,
                  insertContent = [], metadata = Map.empty, raw = []\<rparr>
   \<and> 7 \<le> length (js_split newline (ascii ''1\<newline>2\<newline>3\<newline>4\<newline>5\<newline>6\<newline>7\<newline>8''))
   \<and> map line (sortedBlocks
        [\<lparr>operation = JStr (ascii ''add''), line = JNum 2, deleteCount = JNum 0,
           insertContent = ascii ''A'', metadata = Map.empty, raw = []\<rparr>,
         \<lparr>operation = JStr (ascii ''delete''), line = JNum 7, deleteCount = JNum 1,
           insertContent = [], metadata = Map.empty, raw = []\<rparr>]) = [JNum 7, JNum 2]
   \<and> applyLatexDiffs (ascii ''1\<newline>2\<newline>3\<newline>4\<newline>5\<newline>6\<newline>7\<newline>8'')
        [\<lparr>operation = JStr (ascii ''add''), line = JNum 2, deleteCount = JNum 0,
           insertContent = ascii ''A'', metadata = Map.empty, raw = []\<rparr>,
         \<lparr>operation = JStr (ascii ''delete''), line = JNum 7, deleteCount = JNum 1,
           insertContent = [], metadata = Map.empty, raw = []\<rparr>]
      = ascii ''1\<newline>A\<newline>2\<newline>3\<newline>4\<newline>5\<newline>6\<newline>8''"
proof -
  let ?a = "\<lparr>operation = JStr (ascii ''add''), line = JNum 2, deleteCount = JNum 0,
           insertContent = ascii ''A'', metadata = Map.empty, raw = []\<rparr>"
  let ?d = "\<lparr>operation = JStr (ascii ''delete''), line = JNum 7, deleteCount = JNum 1,
           insertContent = [], metadata = Map.empty, raw = []\<rparr>"
  let ?txt = "ascii ''1\<newline>2\<newline>3\<newline>4\<newline>5\<newline>6\<newline>7\<newline>8''"
  have n: "\<forall>b\<in>set [?a, ?d]. has_line_number b"
    by (simp add: has_line_number_def)
  have l: "7 \<le> length (js_split newline ?txt)"
    by (simp add: ascii_def newline_def)
  have f: "operation ?d = JStr (ascii ''delete'') \<and> line ?d = JNum 7 \<and> deleteCount ?d = JNum 1
       \<and> operation ?a = JStr (ascii ''add'') \<and> line ?a = JNum 2 \<and> insertContent ?a = ascii ''A''
       \<and> 7 \<le> length (js_split newline ?txt)"
    using l by simp
  note th = descending_order [of "[?a, ?d]" ?txt ?d ?a]
  from th n have "sorted_wrt (\<lambda>a b. line_number b \<le> line_number a) (sortedBlocks [?a, ?d])"
    and "mset (sortedBlocks [?a, ?d]) = mset [?a, ?d]"
    by blast+
  have o: "map line (sortedBlocks [?a, ?d]) = [JNum 7, JNum 2]"
    by (simp add: sortedBlocks_def js_sort_def to_number_def js_gt_def)
  from th f have "applyLatexDiffs ?txt [?d, ?a] =
        js_join newline (take 1 (js_split newline ?txt) @ [ascii ''A'']
                         @ take 5 (drop 1 (js_split newline ?txt)) @ drop 7 (js_split newline ?txt))
      \<and> applyLatexDiffs ?txt [?a, ?d] = applyLatexDiffs ?txt [?d, ?a]"
    by blast
  then have "applyLatexDiffs ?txt [?a, ?d] = ascii ''1\<newline>A\<newline>2\<newline>3\<newline>4\<newline>5\<newline>6\<newline>8''"
    by (simp add: ascii_def newline_def)
  with n l o show ?thesis
    by simp
qed

text \<open>
  Claim C1 as stated, for every batch of parsed records, fails. The parser keeps a
  \<open>line\<close> token that is not a number as a string, so the reply with the three blocks
  \<^verbatim>\<open>@@ operation:delete line:1 @@\<close>, \<^verbatim>\<open>@@ operation:add line:x @@\<close> and
  \<^verbatim>\<open>@@ operation:delete line:2 @@\<close> parses to records with the lines 1, \<open>x\<close>, 2. The
  comparator \<open>b.line - a.line\<close> is \<open>NaN\<close> on both pairs of neighbours, which \<open>sort\<close> reads
  as 0: the batch is already one ascending run, so an insertion sort, a merge sort and
  the run detection of a TimSort all leave it as it is. Line 1 is then deleted before
  line 2, in ascending order: from \<open>a\<close>, \<open>b\<close>, \<open>c\<close> the result is \<open>b\<close>, where the two delete
  blocks alone, applied in descending order, give \<open>c\<close>.
\<close>

theorem descending_order_counterexample:
  "map line (parseLatexDiff (ascii
      ''```latex-diff\<newline>@@ operation:delete line:1 @@\<newline>```\<newline>```latex-diff\<newline>@@ operation:add line:x @@\<newline>```\<newline>```latex-diff\<newline>@@ operation:delete line:2 @@\<newline>```''))
     = [JNum 1, JStr (ascii ''x''), JNum 2]
   \<and> map line (sortedBlocks (parseLatexDiff (ascii
      ''```latex-diff\<newline>@@ operation:delete line:1 @@\<newline>```\<newline>```latex-diff\<newline>@@ operation:add line:x @@\<newline>```\<newline>```latex-diff\<newline>@@ operation:delete line:2 @@\<newline>```'')))
     = [JNum 1, JStr (ascii ''x''), JNum 2]
   \<and> \<not> sorted_wrt (\<lambda>a b. \<not> js_lt (to_number (line a)) (to_number (line b)))
         (sortedBlocks (parseLatexDiff (ascii
      ''```latex-diff\<newline>@@ operation:delete line:1 @@\<newline>```\<newline>```latex-diff\<newline>@@ operation:add line:x @@\<newline>```\<newline>```latex-diff\<newline>@@ operation:delete line:2 @@\<newline>```'')))
   \<and> js_sub (to_number (JNum 1)) (to_number (JStr (ascii ''x''))) = NaN
   \<and> js_sub (to_number (JStr (ascii ''x''))) (to_number (JNum 2)) = NaN
   \<and> applyLatexDiffs (ascii ''a\<newline>b\<newline>c'') (parseLatexDiff (ascii
      ''```latex-diff\<newline>@@ operation:delete line:1 @@\<newline>```\<newline>```latex-diff\<newline>@@ operation:add line:x @@\<newline>```\<newline>```latex-diff\<newline>@@ operation:delete line:2 @@\<newline>```''))
     = ascii ''b''
   \<and> applyLatexDiffs (ascii ''a\<newline>b\<newline>c'') (parseLatexDiff (ascii
      ''```latex-diff\<newline>@@ operation:delete line:1 @@\<newline>```\<newline>```latex-diff\<newline>@@ operation:delete line:2 @@\<newline>```''))
     = ascii ''c''"
proof -
  let ?P = "parseLatexDiff (ascii
      ''```latex-diff\<newline>@@ operation:delete line:1 @@\<newline>```\<newline>```latex-diff\<newline>@@ operation:add line:x @@\<newline>```\<newline>```latex-diff\<newline>@@ operation:delete line:2 @@\<newline>```'')"
  let ?Q = "parseLatexDiff (ascii
      ''```latex-diff\<newline>@@ operation:delete line:1 @@\<newline>```\<newline>```latex-diff\<newline>@@ operation:delete line:2 @@\<newline>```'')"
  have p: "map (\<lambda>b. (operation b, line b, deleteCount b, insertContent b)) ?P
           = [(JStr (ascii ''delete''), JNum 1, JNum 1, []),
              (JStr (ascii ''add''), JStr (ascii ''x''), JNum 0, []),
              (JStr (ascii ''delete''), JNum 2, JNum 1, [])]"
    by (simp add: parse_eval)
  then obtain b1 b2 b3 where P: "?P = [b1, b2, b3]"
    and f1: "operation b1 = JStr (ascii ''delete'')" "line b1 = JNum 1" "deleteCount b1 = JNum 1"
    and f2: "operation b2 = JStr (ascii ''add'')" "line b2 = JStr (ascii ''x'')" "insertContent b2 = []"
    and f3: "operation b3 = JStr (ascii ''delete'')" "line b3 = JNum 2" "deleteCount b3 = JNum 1"
    by auto
  have q: "map (\<lambda>b. (operation b, line b, deleteCount b, insertContent b)) ?Q
           = [(JStr (ascii ''delete''), JNum 1, JNum 1, []),
              (JStr (ascii ''delete''), JNum 2, JNum 1, [])]"
    by (simp add: parse_eval)
  then obtain c1 c2 where Q: "?Q = [c1, c2]"
    and g1: "operation c1 = JStr (ascii ''delete'')" "line c1 = JNum 1" "deleteCount c1 = JNum 1"
    and g2: "operation c2 = JStr (ascii ''delete'')" "line c2 = JNum 2" "deleteCount c2 = JNum 1"
    by auto
  have n: "string_to_number (ascii ''x'') = NaN"
    by (simp add: string_to_number_def js_trim_def unsigned_decimal_def is_digit_def is_space_def
          ascii_def)
  have o: "sortedBlocks [b1, b2, b3] = [b1, b2, b3]"
    using f1 f2 f3 n by (simp add: sortedBlocks_def js_sort_def to_number_def js_gt_def)
  have o': "sortedBlocks [c1, c2] = [c2, c1]"
    using g1 g2 by (simp add: sortedBlocks_def js_sort_def to_number_def js_gt_def)
  have s0: "js_splice xs (Fin 0) (Fin 1) [] = drop 1 xs" for xs :: "jsstring list"
    using js_splice_from [of 0 xs 1 "[]"] by simp
  have s1: "js_splice xs (Fin 1) (Fin 1) [] = take 1 xs @ drop 2 xs" for xs :: "jsstring list"
    using js_splice_from [of 1 xs 1 "[]"] by (simp add: numeral_2_eq_2)
  have sn: "js_splice xs NaN (Fin 0) [] = xs" for xs :: "jsstring list"
    by (simp add: js_splice_def splice_start_def splice_count_def trunc_def)
  have a1: "apply_block xs b1 = drop 1 xs" for xs
    using f1 by (simp add: apply_block_def to_number_def js_or_def truthy_def s0 ascii_def)
  have a2: "apply_block xs b2 = xs" for xs
    using f2 n by (simp add: apply_block_def to_number_def insert_lines_def sn ascii_def)
  have a3: "apply_block xs b3 = take 1 xs @ drop 2 xs" for xs
    using f3 by (simp add: apply_block_def to_number_def js_or_def truthy_def s1 ascii_def)
  have c1: "apply_block xs c1 = drop 1 xs" for xs
    using g1 by (simp add: apply_block_def to_number_def js_or_def truthy_def s0 ascii_def)
  have c2: "apply_block xs c2 = take 1 xs @ drop 2 xs" for xs
    using g2 by (simp add: apply_block_def to_number_def js_or_def truthy_def s1 ascii_def)
  have r: "applyLatexDiffs (ascii ''a\<newline>b\<newline>c'') [b1, b2, b3] = ascii ''b''"
    by (simp add: applyLatexDiffs_def o a1 a2 a3) (simp add: ascii_def newline_def)
  have r': "applyLatexDiffs (ascii ''a\<newline>b\<newline>c'') [c1, c2] = ascii ''c''"
    by (simp add: applyLatexDiffs_def o' c1 c2) (simp add: ascii_def newline_def)
  have ns: "\<not> sorted_wrt (\<lambda>a b. \<not> js_lt (to_number (line a)) (to_number (line b))) [b1, b2, b3]"
    using f1 f3 by (simp add: to_number_def)
  have k: "js_sub (to_number (JNum 1)) (to_number (JStr (ascii ''x''))) = NaN"
    "js_sub (to_number (JStr (ascii ''x''))) (to_number (JNum 2)) = NaN"
    using n by (simp_all add: to_number_def)
  show ?thesis
    unfolding P Q o using f1 f2 f3 r r' ns k by simp
qed

subsection \<open>C8: validation\<close>

text \<open>
  Claim C8, as the code has it. For a block whose \<open>line\<close> is a number \<open>l\<close> and whose
  \<open>deleteCount\<close> is not a string, \<open>validateDiffBlock\<close> returns \<open>valid = true\<close> exactly when
  \<open>1 \<le> l \<le> lineCount + 1\<close> and, for replace and delete,
  \<open>l + deleteCount - 1 \<le> lineCount\<close> (\<open>deleteCount\<close> taken as 1 when 0 or unset); \<open>valid\<close> is
  false exactly when the list of errors is not empty. The function is pure: it returns
  the result and has no state to change.
\<close>

theorem validation_rule:
  assumes "line b = JNum l" and "\<not> is_string (deleteCount b)"
  shows "(valid (validateDiffBlock txt b) \<longleftrightarrow>
            1 \<le> l \<and> l \<le> int (length (js_split newline txt)) + 1
            \<and> (operation b = JStr (ascii ''replace'') \<or> operation b = JStr (ascii ''delete'')
                 \<longrightarrow> l + effective_count (deleteCount b) - 1 \<le> int (length (js_split newline txt))))
       \<and> (valid (validateDiffBlock txt b) \<longleftrightarrow> errors (validateDiffBlock txt b) = [])"
proof -
  have e: "js_sub (js_add_number (JNum l) (JNum (effective_count (deleteCount b)))) (Fin 1)
           = Fin (of_int (l + effective_count (deleteCount b) - 1))"
    by (simp add: js_add_number_def is_string_def to_number_def)
  have g: "js_gt (Fin (of_int i)) (Fin (of_nat n)) \<longleftrightarrow> int n < i" for i n
    using of_int_less_iff [of "int n" i, where ?'a = rat] by (simp add: js_gt_def)
  have lt: "js_lt (Fin (of_int i)) (Fin 1) \<longleftrightarrow> i < 1" for i
    by simp
  show ?thesis
    unfolding validateDiffBlock_def Let_def assms(1) js_or_count [OF assms(2)] e to_number_JNum g lt
    by auto
qed

theorem validation_rule_witness:
  "\<not> valid (validateDiffBlock (ascii ''a\<newline>b\<newline>c'')
        \<lparr>operation = JStr (ascii ''delete''), line = JNum 3, deleteCount = JNum 2,
          insertContent = [], metadata = Map.empty, raw = []\<rparr>)
   \<and> errors (validateDiffBlock (ascii ''a\<newline>b\<newline>c'')
        \<lparr>operation = JStr (ascii ''delete''), line = JNum 3, deleteCount = JNum 2,
          insertContent = [], metadata = Map.empty, raw = []\<rparr>) \<noteq> []
   \<and> valid (validateDiffBlock (ascii ''a\<newline>b\<newline>c'')
        \<lparr>operation = JStr (ascii ''add''), line = JNum 4, deleteCount = JNum 0,
          insertContent = ascii ''d'', metadata = Map.empty, raw = []\<rparr>)"
  using validation_rule [of
      "\<lparr>operation = JStr (ascii ''delete''), line = JNum 3, deleteCount = JNum 2,
          insertContent = [], metadata = Map.empty, raw = []\<rparr>" 3 "ascii ''a\<newline>b\<newline>c''"]
    validation_rule [of
      "\<lparr>operation = JStr (ascii ''add''), line = JNum 4, deleteCount = JNum 0,
          insertContent = ascii ''d'', metadata = Map.empty, raw = []\<rparr>" 4 "ascii ''a\<newline>b\<newline>c''"]
  by (auto simp add: is_string_def effective_count_def ascii_def newline_def)

text \<open>
  Claim C8 as stated, for every parsed block, fails. The reply block
  \<^verbatim>\<open>@@ operation:add line:x @@\<close> parses to a block whose \<open>line\<close> is the string \<open>x\<close>. Both
  \<open>line < 1\<close> and \<open>line > lines.length + 1\<close> are false for it, so no error is pushed and the
  block is valid, although its \<open>line\<close> is not between 1 and \<open>lineCount + 1\<close>.
\<close>

theorem validation_rule_counterexample:
  "length (parseLatexDiff (ascii ''```latex-diff\<newline>@@ operation:add line:x @@\<newline>y\<newline>```'')) = 1
   \<and> line (hd (parseLatexDiff (ascii ''```latex-diff\<newline>@@ operation:add line:x @@\<newline>y\<newline>```''))) = JStr (ascii ''x'')
   \<and> \<not> (valid (validateDiffBlock (ascii ''a'')
             (hd (parseLatexDiff (ascii ''```latex-diff\<newline>@@ operation:add line:x @@\<newline>y\<newline>```''))))
         \<longleftrightarrow> claimed_valid (ascii ''a'')
             (hd (parseLatexDiff (ascii ''```latex-diff\<newline>@@ operation:add line:x @@\<newline>y\<newline>```''))))"
proof -
  have p: "map (\<lambda>b. (operation b, line b, deleteCount b))
             (parseLatexDiff (ascii ''```latex-diff\<newline>@@ operation:add line:x @@\<newline>y\<newline>```''))
           = [(JStr (ascii ''add''), JStr (ascii ''x''), JNum 0)]"
    by (simp add: parse_eval)
  then obtain b where b: "parseLatexDiff (ascii ''```latex-diff\<newline>@@ operation:add line:x @@\<newline>y\<newline>```'') = [b]"
    and f: "operation b = JStr (ascii ''add'')" "line b = JStr (ascii ''x'')" "deleteCount b = JNum 0"
    by auto
  have v: "valid (validateDiffBlock (ascii ''a'') b)"
    using f
    by (simp add: validateDiffBlock_def Let_def to_number_def string_to_number_def js_trim_def
          unsigned_decimal_def is_digit_def is_space_def js_gt_def ascii_def)
  have c: "\<not> claimed_valid (ascii ''a'') b"
    using f by (simp add: claimed_valid_def)
  show ?thesis
    using v c f by (simp add: b)
qed

section \<open>Properties of the parser\<close>

subsection \<open>Records come from matches\<close>

lemma parse_blocks_records:
  "r \<in> set (parse_blocks s) \<Longrightarrow> \<exists>m s'. blockRegex s' = Some m \<and> block_of_match m = Some r"
proof (induction s rule: parse_blocks.induct)
  case (1 s)
  show ?case
  proof (cases "search blockRegex s")
    case None
    with "1.prems" show ?thesis by simp
  next
    case (Some m)
    then obtain u s' where s': "blockRegex s' = Some m"
      by (auto dest: search_Some)
    show ?thesis
    proof (cases "block_of_match m")
      case None
      with Some "1.prems" have "r \<in> set (parse_blocks (after m))" by simp
      with "1.IH"(1) [OF Some None] show ?thesis .
    next
      case (Some b)
      note b = this
      with \<open>search blockRegex s = Some m\<close> "1.prems"
      have "r = b \<or> r \<in> set (parse_blocks (after m))" by simp
      then show ?thesis
      proof
        assume "r = b"
        with s' b show ?thesis by blast
      next
        assume "r \<in> set (parse_blocks (after m))"
        with "1.IH"(2) [OF \<open>search blockRegex s = Some m\<close> b] show ?thesis .
      qed
    qed
  qed
qed

lemma ascii_delete_neq:
  "ascii ''delete'' \<noteq> ascii ''operation''" "ascii ''delete'' \<noteq> ascii ''line''"
  "ascii ''operation'' \<noteq> ascii ''delete''" "ascii ''line'' \<noteq> ascii ''delete''"
  by (simp_all add: ascii_def)

lemma block_of_match_fields:
  assumes "block_of_match m = Some r"
  shows "truthy (operation r)" and "line r \<noteq> JUndefined"
    and "operation r = JStr (ascii ''delete'') \<longrightarrow> truthy (deleteCount r)"
    and "insertContent r = js_trim (group2 m)" and "raw r = whole m"
    and "operation r = get_prop (parse_metadata (group1 m)) ''operation''"
    and "line r = get_prop (parse_metadata (group1 m)) ''line''"
  using assms
  by (auto simp add: block_of_match_def Let_def get_prop_def ascii_delete_neq js_or_def truthy_def
        split: if_splits)

subsection \<open>How the block pattern matches a block in the wire format\<close>

lemma strip_prefix_None_iff: "strip_prefix w s = None \<longleftrightarrow> \<not> prefix w s"
  by (induction w s rule: strip_prefix.induct) auto

lemma match_literal_append: "match_literal w (w @ s) k = k s"
  by (simp add: match_literal_def strip_prefix_append)

lemma match_literal_no_prefix: "\<not> prefix w s \<Longrightarrow> match_literal w s k = None"
  using strip_prefix_None_iff [of w s] by (simp add: match_literal_def)

lemma match_newline: "match_literal [newline] (newline # t) k = k t"
  using match_literal_append [of "[newline]" t k] by simp

lemma star_greedy_stop: "v = [] \<or> \<not> p (hd v) \<Longrightarrow> star_greedy p v k = k v"
  by (cases v) auto

lemma star_greedy_prefix:
  "list_all p u \<Longrightarrow> star_greedy p v k = Some r \<Longrightarrow> star_greedy p (u @ v) k = Some r"
  by (induction u) auto

lemma star_greedy_run:
  "list_all p u \<Longrightarrow> v = [] \<or> \<not> p (hd v) \<Longrightarrow> k v = Some r \<Longrightarrow> star_greedy p (u @ v) k = Some r"
  by (simp add: star_greedy_prefix star_greedy_stop)

lemma star_lazy_here: "k v = Some r \<Longrightarrow> star_lazy p v k = Some r"
  by (cases v) auto

lemma star_lazy_skip:
  "list_all p u \<Longrightarrow> \<forall>i<length u. k (drop i u @ v) = None \<Longrightarrow> star_lazy p (u @ v) k = star_lazy p v k"
proof (induction u)
  case Nil
  then show ?case by simp
next
  case (Cons c u)
  from Cons.prems(2) have "k (drop 0 (c # u) @ v) = None" by blast
  then have k0: "k (c # u @ v) = None" by simp
  have "\<forall>i<length u. k (drop i u @ v) = None"
  proof (intro allI impI)
    fix i assume "i < length u"
    then have "k (drop (Suc i) (c # u) @ v) = None"
      using Cons.prems(2) by (metis Suc_less_eq length_Cons)
    then show "k (drop i u @ v) = None" by simp
  qed
  with Cons.IH Cons.prems(1) have "star_lazy p (u @ v) k = star_lazy p v k" by simp
  with k0 Cons.prems(1) show ?case by simp
qed

lemma space_facts:
  "is_space newline" "is_space 32" "\<not> is_space 64" "\<not> is_space 96"
  by (simp_all add: is_space_def newline_def)

text \<open>\<open>\s*\n\<close> in front of a text that does not start with white space.\<close>

lemma greedy_newline_once:
  assumes "v = [] \<or> \<not> is_space (hd v)"
  shows "star_greedy is_space (newline # v) (\<lambda>s. match_literal [newline] s K) = K v"
proof -
  have "\<not> prefix [newline] v"
    using assms space_facts(1) by (cases v) auto
  then have "star_greedy is_space v (\<lambda>s. match_literal [newline] s K) = None"
    using assms by (simp add: star_greedy_stop match_literal_no_prefix)
  then show ?thesis
    by (simp add: space_facts match_newline)
qed

text \<open>\<open>([\s\S]*?)```\<close>: the body ends at the first closing fence.\<close>

lemma lazy_body:
  assumes "\<forall>i<length x. \<not> prefix fence_close (drop i x @ fence_close @ rest)"
  shows "star_lazy is_any (x @ fence_close @ rest)
           (\<lambda>s11. match_literal fence_close s11 (\<lambda>s12. Some (G s11 s12)))
         = Some (G (fence_close @ rest) rest)"
proof -
  have "star_lazy is_any (x @ fence_close @ rest)
           (\<lambda>s11. match_literal fence_close s11 (\<lambda>s12. Some (G s11 s12)))
        = star_lazy is_any (fence_close @ rest)
           (\<lambda>s11. match_literal fence_close s11 (\<lambda>s12. Some (G s11 s12)))"
    using assms
    by (intro star_lazy_skip) (simp_all add: match_literal_no_prefix list_all_iff is_any_def)
  also have "\<dots> = Some (G (fence_close @ rest) rest)"
    by (intro star_lazy_here) (simp add: match_literal_append)
  finally show ?thesis .
qed

lemma after_last_newline_Cons:
  "after_last_newline (c # w) =
     (if newline \<in> set w then after_last_newline w else if c = newline then w else c # w)"
proof (cases "newline \<in> set w")
  case True
  then have "takeWhile (\<lambda>c. c \<noteq> newline) (rev w @ [c]) = takeWhile (\<lambda>c. c \<noteq> newline) (rev w)"
    by (intro takeWhile_append1 [of newline]) simp_all
  with True show ?thesis by (simp add: after_last_newline_def)
next
  case False
  then have "takeWhile (\<lambda>c. c \<noteq> newline) (rev w @ [c])
             = rev w @ takeWhile (\<lambda>c. c \<noteq> newline) [c]"
    by (intro takeWhile_append2) auto
  with False show ?thesis by (simp add: after_last_newline_def)
qed

lemma after_last_newline_spaces: "list_all is_space w \<Longrightarrow> list_all is_space (after_last_newline w)"
  by (auto simp: after_last_newline_def list_all_iff dest: set_takeWhileD)

text \<open>\<open>\s*\n([\s\S]*?)```\<close> on white space \<open>w\<close> followed by a text that starts with no white
  space and reaches its first closing fence after \<open>x\<close>: the greedy \<open>\s*\<close> gives back
  characters until it stands before the last newline of \<open>w\<close>.\<close>

lemma ws_then_body:
  assumes "list_all is_space w" and "x = [] \<or> \<not> is_space (hd x)"
    and "\<forall>i<length x. \<not> prefix fence_close (drop i x @ fence_close @ rest)"
  shows "star_greedy is_space (w @ x @ fence_close @ rest)
           (\<lambda>s9. match_literal [newline] s9 (\<lambda>s10. star_lazy is_any s10
              (\<lambda>s11. match_literal fence_close s11 (\<lambda>s12. Some (G s10 s11 s12)))))
         = (if newline \<in> set w
            then Some (G (after_last_newline w @ x @ fence_close @ rest) (fence_close @ rest) rest)
            else None)"
  using assms(1)
proof (induction w)
  case Nil
  have v: "x @ fence_close @ rest = [] \<or> \<not> is_space (hd (x @ fence_close @ rest))"
    using assms(2) space_facts(4) by (cases x) (simp_all add: fence_close_def ascii_def)
  then have "\<not> prefix [newline] (x @ fence_close @ rest)"
    using space_facts(1) by (cases "x @ fence_close @ rest") auto
  with v show ?case
    by (simp add: star_greedy_stop match_literal_no_prefix)
next
  case (Cons c w)
  then have c: "is_space c" and w: "list_all is_space w" by simp_all
  show ?case
  proof (cases "newline \<in> set w")
    case True
    with Cons.IH w c show ?thesis
      by (simp add: after_last_newline_Cons)
  next
    case False
    with Cons.IH w have n: "star_greedy is_space (w @ x @ fence_close @ rest)
           (\<lambda>s9. match_literal [newline] s9 (\<lambda>s10. star_lazy is_any s10
              (\<lambda>s11. match_literal fence_close s11 (\<lambda>s12. Some (G s10 s11 s12))))) = None"
      by simp
    show ?thesis
    proof (cases "c = newline")
      case True
      have nf: "\<forall>i<length (w @ x). \<not> prefix fence_close (drop i (w @ x) @ fence_close @ rest)"
      proof (intro allI impI)
        fix i assume i: "i < length (w @ x)"
        show "\<not> prefix fence_close (drop i (w @ x) @ fence_close @ rest)"
        proof (cases "i < length w")
          case True
          then obtain d ds where d: "drop i w = d # ds"
            by (cases "drop i w") simp_all
          then have "d \<in> set w" by (metis in_set_dropD list.set_intros(1))
          with w have "is_space d" by (simp add: list_all_iff)
          with space_facts(4) have "d \<noteq> 96" by auto
          with d True show ?thesis
            by (simp add: fence_close_def ascii_def)
        next
          case False
          with i have "i - length w < length x" by simp
          with assms(3) have "\<not> prefix fence_close (drop (i - length w) x @ fence_close @ rest)"
            by blast
          with False show ?thesis by simp
        qed
      qed
      have "match_literal [newline] (c # w @ x @ fence_close @ rest)
            (\<lambda>s10. star_lazy is_any s10
              (\<lambda>s11. match_literal fence_close s11 (\<lambda>s12. Some (G s10 s11 s12))))
          = star_lazy is_any ((w @ x) @ fence_close @ rest)
              (\<lambda>s11. match_literal fence_close s11 (\<lambda>s12. Some (G (w @ x @ fence_close @ rest) s11 s12)))"
        using True by (simp add: match_newline)
      also have "\<dots> = Some (G (w @ x @ fence_close @ rest) (fence_close @ rest) rest)"
        by (rule lazy_body [OF nf])
      finally have "match_literal [newline] (c # w @ x @ fence_close @ rest)
            (\<lambda>s10. star_lazy is_any s10
              (\<lambda>s11. match_literal fence_close s11 (\<lambda>s12. Some (G s10 s11 s12))))
          = Some (G (w @ x @ fence_close @ rest) (fence_close @ rest) rest)" .
      with n c False True show ?thesis
        by (simp add: after_last_newline_Cons)
    next
      case False
      then have "\<not> prefix [newline] (c # w @ x @ fence_close @ rest)" by simp
      with n c \<open>newline \<notin> set w\<close> False show ?thesis
        by (simp add: match_literal_no_prefix)
    qed
  qed
qed

lemma search_here: "m s = Some r \<Longrightarrow> search m s = Some r"
  by (cases s) auto

lemma js_trim_spaces_prefix: "list_all is_space w \<Longrightarrow> js_trim (w @ x) = js_trim x"
proof -
  assume "list_all is_space w"
  then have "dropWhile is_space (w @ x) = dropWhile is_space x"
    by (intro dropWhile_append2) (simp add: list_all_iff)
  then show ?thesis by (simp add: js_trim_def)
qed

text \<open>\<open>(.*?)\s*@@\<close> on a metadata text without \<open>@\<close> that does not end in white space,
  followed by one space and \<open>@@\<close>: group 1 is the whole metadata text.\<close>

lemma meta_lazy:
  assumes "list_all is_dot meta" and "64 \<notin> set meta" and "meta \<noteq> []" and "\<not> is_space (last meta)"
    and "Q (32 # at_at @ t) t = Some r"
  shows "star_lazy is_dot (meta @ 32 # at_at @ t)
           (\<lambda>s6. star_greedy is_space s6 (\<lambda>s7. match_literal at_at s7 (\<lambda>s8. Q s6 s8))) = Some r"
proof -
  let ?k = "\<lambda>s6. star_greedy is_space s6 (\<lambda>s7. match_literal at_at s7 (\<lambda>s8. Q s6 s8))"
  have none: "\<forall>i<length meta. ?k (drop i meta @ 32 # at_at @ t) = None"
  proof (intro allI impI)
    fix i assume i: "i < length meta"
    show "?k (drop i meta @ 32 # at_at @ t) = None"
    proof (rule ccontr)
      assume "?k (drop i meta @ 32 # at_at @ t) \<noteq> None"
      then obtain r' where "?k (drop i meta @ 32 # at_at @ t) = Some r'" by blast
      then obtain u s7 where eq: "drop i meta @ 32 # at_at @ t = u @ s7"
        and u: "list_all is_space u"
        and m: "match_literal at_at s7 (\<lambda>s8. Q (drop i meta @ 32 # at_at @ t) s8) = Some r'"
        by (erule star_greedyE)
      from m obtain s8 where s7: "s7 = at_at @ s8"
        and "Q (drop i meta @ 32 # at_at @ t) s8 = Some r'"
        by (erule match_literalE)
      have d: "\<forall>c\<in>set (drop i meta). c \<noteq> 64"
        using assms(2) by (metis in_set_dropD)
      have "takeWhile (\<lambda>c. c \<noteq> 64) (drop i meta @ 32 # at_at @ t) = drop i meta @ [32]"
        using d by (simp add: takeWhile_append2 at_at_def ascii_def)
      moreover have "takeWhile (\<lambda>c. c \<noteq> 64) (u @ s7) = u"
      proof -
        have "\<forall>c\<in>set u. c \<noteq> 64"
          using u space_facts(3) by (auto simp: list_all_iff)
        then show ?thesis
          by (simp add: takeWhile_append2 s7 at_at_def ascii_def)
      qed
      ultimately have "u = drop i meta @ [32]"
        using eq by simp
      with u have sp: "list_all is_space (drop i meta)" by simp
      have "drop i meta \<noteq> []" using i by simp
      then have "last (drop i meta) \<in> set (drop i meta)" by (rule last_in_set)
      with sp have "is_space (last (drop i meta))"
        unfolding list_all_iff by blast
      with i assms(4) show False
        by (simp add: last_drop)
    qed
  qed
  have "star_greedy is_space ([32] @ at_at @ t)
          (\<lambda>s7. match_literal at_at s7 (\<lambda>s8. Q (32 # at_at @ t) s8)) = Some r"
    using assms(5) space_facts
    by (intro star_greedy_run) (simp_all add: match_literal_append, simp add: at_at_def ascii_def)
  then have here: "?k (32 # at_at @ t) = Some r" by simp
  have "star_lazy is_dot (meta @ 32 # at_at @ t) ?k = star_lazy is_dot (32 # at_at @ t) ?k"
    using assms(1) none by (rule star_lazy_skip)
  also have "\<dots> = Some r"
    using here by (rule star_lazy_here)
  finally show ?thesis .
qed

lemma prefix_short: "length w \<le> length a \<Longrightarrow> prefix w (a @ b) \<longleftrightarrow> prefix w a"
  by (auto simp: prefix_append)

lemma body_part:
  assumes fence: "\<forall>i<length body. \<not> prefix fence_close (drop i (body @ fence_close))"
  shows "star_greedy is_space (newline # body @ fence_close @ rest)
           (\<lambda>s9. match_literal [newline] s9 (\<lambda>s10. star_lazy is_any s10
              (\<lambda>s11. match_literal fence_close s11 (\<lambda>s12. Some (G s10 s11 s12)))))
         = Some (G (after_last_newline (newline # takeWhile is_space body)
                    @ dropWhile is_space body @ fence_close @ rest) (fence_close @ rest) rest)"
proof -
  let ?w = "newline # takeWhile is_space body"
  let ?x = "dropWhile is_space body"
  have x0: "?x = [] \<or> \<not> is_space (hd ?x)"
    by (metis hd_dropWhile)
  have nf: "\<forall>i<length ?x. \<not> prefix fence_close (drop i ?x @ fence_close @ rest)"
  proof (intro allI impI)
    fix i assume i: "i < length ?x"
    let ?j = "length (takeWhile is_space body) + i"
    have b: "body = takeWhile is_space body @ ?x" by simp
    have j: "?j < length body"
      using i by (metis b length_append nat_add_left_cancel_less)
    have dj: "drop ?j body = drop i ?x"
      by (metis b append_eq_conv_conj drop_drop add.commute)
    from fence j have "\<not> prefix fence_close (drop ?j (body @ fence_close))" by blast
    with j dj have n: "\<not> prefix fence_close (drop i ?x @ fence_close)" by simp
    have "length fence_close \<le> length (drop i ?x @ fence_close)" by simp
    from prefix_short [OF this, of rest] n
    show "\<not> prefix fence_close (drop i ?x @ fence_close @ rest)" by simp
  qed
  have ws: "list_all is_space ?w"
    using space_facts(1) by (auto simp: list_all_iff dest: set_takeWhileD)
  have tb: "?w @ ?x @ fence_close @ rest = newline # body @ fence_close @ rest"
    by (metis append_Cons append_assoc takeWhile_dropWhile_id)
  have nl: "newline \<in> set ?w" by simp
  show ?thesis
    using ws_then_body [OF ws x0 nf, of G] unfolding tb if_P [OF nl] .
qed

lemma consumed_append: "consumed (a @ b) b = a"
  by (simp add: consumed_def)

lemma blockRegex_complete:
  assumes "list_all is_dot meta" and "64 \<notin> set meta" and "meta \<noteq> []"
    and "\<not> is_space (hd meta)" and "\<not> is_space (last meta)"
    and fence: "\<forall>i<length body. \<not> prefix fence_close (drop i (body @ fence_close))"
  shows "blockRegex (fence_open @ newline # at_at @ 32 # meta @ 32 # at_at @ newline # body
                     @ fence_close @ rest)
         = Some \<lparr>whole = fence_open @ newline # at_at @ 32 # meta @ 32 # at_at @ newline # body
                          @ fence_close,
                  group1 = meta,
                  group2 = after_last_newline (newline # takeWhile is_space body)
                           @ dropWhile is_space body,
                  after = rest\<rparr>"
proof -
  let ?t = "newline # body @ fence_close @ rest"
  let ?s5 = "meta @ 32 # at_at @ ?t"
  let ?s = "fence_open @ newline # at_at @ 32 # ?s5"
  let ?G = "\<lambda>s6 s10 s11 s12. \<lparr>whole = consumed ?s s12, group1 = consumed ?s5 s6,
                               group2 = consumed s10 s11, after = s12\<rparr>"
  let ?Q = "\<lambda>s6 s8. star_greedy is_space s8
              (\<lambda>s9. match_literal [newline] s9 (\<lambda>s10. star_lazy is_any s10
                 (\<lambda>s11. match_literal fence_close s11 (\<lambda>s12. Some (?G s6 s10 s11 s12)))))"
  let ?g2 = "after_last_newline (newline # takeWhile is_space body) @ dropWhile is_space body"
  let ?r = "?G (32 # at_at @ ?t) (?g2 @ fence_close @ rest) (fence_close @ rest) rest"
  have q: "?Q (32 # at_at @ ?t) ?t = Some ?r"
    using body_part [OF fence, of rest "?G (32 # at_at @ ?t)"] by (simp del: star_greedy.simps)
  have l6: "star_lazy is_dot ?s5
           (\<lambda>s6. star_greedy is_space s6 (\<lambda>s7. match_literal at_at s7 (\<lambda>s8. ?Q s6 s8))) = Some ?r"
    by (rule meta_lazy [where Q = "?Q", OF assms(1,2,3,5) q])
  have h5: "?s5 = [] \<or> \<not> is_space (hd ?s5)"
    using assms(3,4) by simp
  have s32: "list_all is_space [32]"
    using space_facts(2) by simp
  have l5: "star_greedy is_space ([32] @ ?s5)
           (\<lambda>s5. star_lazy is_dot s5
              (\<lambda>s6. star_greedy is_space s6 (\<lambda>s7. match_literal at_at s7 (\<lambda>s8.
                 star_greedy is_space s8
                  (\<lambda>s9. match_literal [newline] s9 (\<lambda>s10. star_lazy is_any s10
                    (\<lambda>s11. match_literal fence_close s11 (\<lambda>s12.
                       Some \<lparr>whole = consumed ?s s12, group1 = consumed s5 s6,
                             group2 = consumed s10 s11, after = s12\<rparr>)))))))) = Some ?r"
    by (rule star_greedy_run [OF s32 h5]) (rule l6)
  have v: "at_at @ 32 # ?s5 = [] \<or> \<not> is_space (hd (at_at @ 32 # ?s5))"
    using space_facts(3) by (simp add: at_at_def ascii_def)
  have "blockRegex ?s = Some ?r"
    unfolding blockRegex_def match_literal_append greedy_newline_once [OF v]
    using l5 by (simp only: append_Cons append_Nil)
  moreover have "consumed ?s rest = fence_open @ newline # at_at @ 32 # meta @ 32 # at_at @ newline # body @ fence_close"
    using consumed_append [of "fence_open @ newline # at_at @ 32 # meta @ 32 # at_at @ newline # body @ fence_close" rest]
    by simp
  moreover have "consumed ?s5 (32 # at_at @ ?t) = meta"
    using consumed_append [of meta "32 # at_at @ ?t"] by simp
  moreover have "consumed (?g2 @ fence_close @ rest) (fence_close @ rest) = ?g2"
    using consumed_append [of ?g2 "fence_close @ rest"] by simp
  ultimately show ?thesis by simp
qed

lemma parse_blocks_step:
  assumes "blockRegex s = Some m" and "block_of_match m = Some b"
  shows "parse_blocks s = b # parse_blocks (after m)"
proof -
  have "search blockRegex s = Some m"
    using assms(1) by (rule search_here)
  with assms(2) show ?thesis
    by (subst parse_blocks.simps) simp
qed

lemma js_trim_captured:
  "js_trim (after_last_newline (newline # takeWhile is_space body) @ dropWhile is_space body)
   = js_trim body"
proof -
  have "list_all is_space (newline # takeWhile is_space body)"
    using space_facts(1) by (auto simp: list_all_iff dest: set_takeWhileD)
  then have "list_all is_space (after_last_newline (newline # takeWhile is_space body))"
    by (rule after_last_newline_spaces)
  then have "js_trim (after_last_newline (newline # takeWhile is_space body) @ dropWhile is_space body)
             = js_trim (dropWhile is_space body)"
    by (rule js_trim_spaces_prefix)
  moreover have "js_trim (takeWhile is_space body @ dropWhile is_space body)
                 = js_trim (dropWhile is_space body)"
    by (intro js_trim_spaces_prefix) (auto simp: list_all_iff dest: set_takeWhileD)
  ultimately show ?thesis by simp
qed

lemma markerRegex_Some:
  assumes "markerRegex s = Some u"
  shows "\<exists>w g rest. s = fence_open @ w @ [newline] @ at_at @ g @ at_at @ rest
           \<and> list_all is_space w \<and> list_all is_dot g"
proof -
  from assms obtain s1 where s1: "s = fence_open @ s1"
    and k1: "star_greedy is_space s1 (\<lambda>s2.
     match_literal [newline] s2 (\<lambda>s3.
     match_literal at_at s3 (\<lambda>s4.
     star_lazy is_dot s4 (\<lambda>s5.
     match_literal at_at s5 (\<lambda>s6. Some ()))))) = Some u"
    unfolding markerRegex_def by (erule match_literalE)
  from k1 obtain w s2 where s2: "s1 = w @ s2" "list_all is_space w"
    and k2: "match_literal [newline] s2 (\<lambda>s3.
     match_literal at_at s3 (\<lambda>s4.
     star_lazy is_dot s4 (\<lambda>s5.
     match_literal at_at s5 (\<lambda>s6. Some ())))) = Some u"
    by (erule star_greedyE)
  from k2 obtain s4 where s4: "s2 = [newline] @ at_at @ s4"
    and k4: "star_lazy is_dot s4 (\<lambda>s5. match_literal at_at s5 (\<lambda>s6. Some ())) = Some u"
    by (elim match_literalE) auto
  from k4 obtain g s5 where s5: "s4 = g @ s5" "list_all is_dot g"
    and k5: "match_literal at_at s5 (\<lambda>s6. Some ()) = Some u"
    by (erule star_lazyE)
  from k5 obtain rest where s6: "s5 = at_at @ rest"
    by (elim match_literalE) auto
  have "s = fence_open @ w @ [newline] @ at_at @ g @ at_at @ rest
           \<and> list_all is_space w \<and> list_all is_dot g"
    using s1 s2 s4 s5 s6 by simp
  then show ?thesis by blast
qed

lemma no_backtick_fence:
  assumes "96 \<notin> set body"
  shows "\<forall>i<length body. \<not> prefix fence_close (drop i (body @ fence_close))"
proof (intro allI impI)
  fix i assume i: "i < length body"
  then obtain d ds where d: "drop i body = d # ds"
    by (cases "drop i body") simp_all
  then have "d \<in> set body" by (metis in_set_dropD list.set_intros(1))
  with assms have "d \<noteq> 96" by auto
  with d i show "\<not> prefix fence_close (drop i (body @ fence_close))"
    by (simp add: fence_close_def ascii_def)
qed

text \<open>A match of the block pattern starts at a backtick.\<close>

lemma blockRegex_needs_backtick: "c \<noteq> 96 \<Longrightarrow> blockRegex (c # s) = None"
  by (simp add: blockRegex_def match_literal_def fence_open_def ascii_def)

lemma search_skip: "96 \<notin> set pre \<Longrightarrow> search blockRegex (pre @ s) = search blockRegex s"
  by (induction pre) (simp_all add: blockRegex_needs_backtick)

lemma parse_blocks_skip: "96 \<notin> set pre \<Longrightarrow> parse_blocks (pre @ s) = parse_blocks s"
  by (subst parse_blocks.simps, subst (2) parse_blocks.simps) (simp add: search_skip)

subsection \<open>C5: the marker predicate and the parser on an unfinished block\<close>

text \<open>
  Claim C5, as the code has it. On the text \<^verbatim>\<open>```latex-diff\<close>, newline, \<^verbatim>\<open>@@ operation:add\<close>
  \<open>hasLatexDiffs\<close> returns \<open>false\<close> and \<open>parseLatexDiff\<close> returns no record. Once the
  metadata line is closed by a second \<^verbatim>\<open>@@\<close>, with no closing fence yet, \<open>hasLatexDiffs\<close>
  returns \<open>true\<close> and \<open>parseLatexDiff\<close> still returns no record. Every text on which
  \<open>hasLatexDiffs\<close> is true holds an opening fence, white space ending in a newline, and
  two \<^verbatim>\<open>@@\<close> on one line.
\<close>

theorem marker_requires_closed_metadata:
  "\<not> hasLatexDiffs (ascii ''```latex-diff\<newline>@@ operation:add'')
   \<and> parseLatexDiff (ascii ''```latex-diff\<newline>@@ operation:add'') = []
   \<and> hasLatexDiffs (ascii ''```latex-diff\<newline>@@ operation:add line:1 @@'')
   \<and> parseLatexDiff (ascii ''```latex-diff\<newline>@@ operation:add line:1 @@'') = []
   \<and> (hasLatexDiffs txt \<longrightarrow>
        (\<exists>pre w g rest. txt = pre @ fence_open @ w @ [newline] @ at_at @ g @ at_at @ rest
           \<and> list_all is_space w \<and> list_all is_dot g))"
proof (intro conjI impI)
  show "\<not> hasLatexDiffs (ascii ''```latex-diff\<newline>@@ operation:add'')"
    by (simp add: hasLatexDiffs_def markerRegex_def regex_eval)
  show "parseLatexDiff (ascii ''```latex-diff\<newline>@@ operation:add'') = []"
    by (simp add: parse_eval)
  show "hasLatexDiffs (ascii ''```latex-diff\<newline>@@ operation:add line:1 @@'')"
    by (simp add: hasLatexDiffs_def markerRegex_def regex_eval)
  show "parseLatexDiff (ascii ''```latex-diff\<newline>@@ operation:add line:1 @@'') = []"
    by (simp add: parse_eval)
next
  assume "hasLatexDiffs txt"
  then obtain u where "search markerRegex txt = Some u"
    by (auto simp: hasLatexDiffs_def)
  then obtain pre s where t: "txt = pre @ s" and "markerRegex s = Some u"
    by (auto dest: search_Some)
  from markerRegex_Some [OF this(2)] obtain w g rest where
    "s = fence_open @ w @ [newline] @ at_at @ g @ at_at @ rest \<and> list_all is_space w \<and> list_all is_dot g"
    by blast
  with t have "txt = pre @ fence_open @ w @ [newline] @ at_at @ g @ at_at @ rest
           \<and> list_all is_space w \<and> list_all is_dot g" by simp
  then show "\<exists>pre w g rest. txt = pre @ fence_open @ w @ [newline] @ at_at @ g @ at_at @ rest
           \<and> list_all is_space w \<and> list_all is_dot g"
    by blast
qed

theorem marker_requires_closed_metadata_witness:
  "hasLatexDiffs (ascii ''```latex-diff\<newline>@@ operation:add line:1 @@'')
   \<and> (\<exists>pre w g rest. ascii ''```latex-diff\<newline>@@ operation:add line:1 @@''
          = pre @ fence_open @ w @ [newline] @ at_at @ g @ at_at @ rest
        \<and> list_all is_space w \<and> list_all is_dot g)
   \<and> length (parseLatexDiff (ascii ''```latex-diff\<newline>@@ operation:add line:1 @@'')) = 0"
  using marker_requires_closed_metadata [of "ascii ''```latex-diff\<newline>@@ operation:add line:1 @@''"]
  by simp

text \<open>Claim C5 as stated fails: on the text with the unfinished metadata line
  \<open>hasLatexDiffs\<close> is not true.\<close>

theorem marker_counterexample:
  "\<not> (hasLatexDiffs (ascii ''```latex-diff\<newline>@@ operation:add'')
      \<and> parseLatexDiff (ascii ''```latex-diff\<newline>@@ operation:add'') = [])"
  by (simp add: hasLatexDiffs_def markerRegex_def regex_eval)

subsection \<open>C6: what holds of every parsed record\<close>

text \<open>
  Claim C6, as the code has it. Every record that \<open>parseLatexDiff\<close> returns has a truthy
  \<open>operation\<close> and a \<open>line\<close> that is not \<open>undefined\<close>, both read from the metadata line of
  its block, and a delete record has a truthy \<open>deleteCount\<close>. Its \<open>raw\<close> text is a complete
  block, and its \<open>insertContent\<close> is the trimmed text between the newline that ends the
  metadata line and the closing fence, for every operation. The parser checks neither
  that \<open>line\<close> is at least 1 nor that the body of a delete block is empty.
\<close>

theorem parsed_record_invariant:
  assumes "r \<in> set (parseLatexDiff txt)"
  shows "truthy (operation r) \<and> line r \<noteq> JUndefined
       \<and> (operation r = JStr (ascii ''delete'') \<longrightarrow> truthy (deleteCount r))
       \<and> (\<exists>w1 w2 g1 w3 w4 body.
             raw r = fence_open @ w1 @ [newline] @ at_at @ w2 @ g1 @ w3 @ at_at @ w4 @ [newline]
                     @ body @ fence_close
             \<and> list_all is_space w1 \<and> list_all is_space w2 \<and> list_all is_dot g1
             \<and> list_all is_space w3 \<and> list_all is_space w4
             \<and> operation r = get_prop (parse_metadata g1) ''operation''
             \<and> line r = get_prop (parse_metadata g1) ''line''
             \<and> insertContent r = js_trim body)"
proof -
  from assms obtain m s where m: "blockRegex s = Some m" and r: "block_of_match m = Some r"
    unfolding parseLatexDiff_def by (blast dest: parse_blocks_records)
  from m obtain w1 w2 g1 w3 w4 g2 rest where
    s: "s = fence_open @ w1 @ [newline] @ at_at @ w2 @ g1 @ w3 @ at_at @ w4 @ [newline] @ g2 @ fence_close @ rest"
    and ws: "list_all is_space w1" "list_all is_space w2" "list_all is_dot g1"
      "list_all is_space w3" "list_all is_space w4"
    and mm: "m = \<lparr>whole = consumed s rest, group1 = g1, group2 = g2, after = rest\<rparr>"
    by (rule blockRegex_Some)
  have "consumed s rest = fence_open @ w1 @ [newline] @ at_at @ w2 @ g1 @ w3 @ at_at @ w4 @ [newline] @ g2 @ fence_close"
    using consumed_append [of "fence_open @ w1 @ [newline] @ at_at @ w2 @ g1 @ w3 @ at_at @ w4 @ [newline] @ g2 @ fence_close" rest]
    by (simp add: s)
  with mm block_of_match_fields [OF r] ws
  have "raw r = fence_open @ w1 @ [newline] @ at_at @ w2 @ g1 @ w3 @ at_at @ w4 @ [newline]
                     @ g2 @ fence_close
             \<and> list_all is_space w1 \<and> list_all is_space w2 \<and> list_all is_dot g1
             \<and> list_all is_space w3 \<and> list_all is_space w4
             \<and> operation r = get_prop (parse_metadata g1) ''operation''
             \<and> line r = get_prop (parse_metadata g1) ''line''
             \<and> insertContent r = js_trim g2"
    by simp
  then have "\<exists>w1 w2 g1 w3 w4 body.
             raw r = fence_open @ w1 @ [newline] @ at_at @ w2 @ g1 @ w3 @ at_at @ w4 @ [newline]
                     @ body @ fence_close
             \<and> list_all is_space w1 \<and> list_all is_space w2 \<and> list_all is_dot g1
             \<and> list_all is_space w3 \<and> list_all is_space w4
             \<and> operation r = get_prop (parse_metadata g1) ''operation''
             \<and> line r = get_prop (parse_metadata g1) ''line''
             \<and> insertContent r = js_trim body"
    by blast
  with block_of_match_fields(1-3) [OF r] show ?thesis
    by blast
qed

theorem parsed_record_invariant_witness:
  "hd (parseLatexDiff (ascii ''```latex-diff\<newline>@@ operation:delete line:0 @@\<newline>foo\<newline>```''))
     \<in> set (parseLatexDiff (ascii ''```latex-diff\<newline>@@ operation:delete line:0 @@\<newline>foo\<newline>```''))
   \<and> truthy (operation (hd (parseLatexDiff
        (ascii ''```latex-diff\<newline>@@ operation:delete line:0 @@\<newline>foo\<newline>```''))))
   \<and> truthy (deleteCount (hd (parseLatexDiff
        (ascii ''```latex-diff\<newline>@@ operation:delete line:0 @@\<newline>foo\<newline>```''))))
   \<and> line (hd (parseLatexDiff
        (ascii ''```latex-diff\<newline>@@ operation:delete line:0 @@\<newline>foo\<newline>```''))) \<noteq> JUndefined"
proof -
  let ?P = "parseLatexDiff (ascii ''```latex-diff\<newline>@@ operation:delete line:0 @@\<newline>foo\<newline>```'')"
  have p: "map operation ?P = [JStr (ascii ''delete'')]"
    by (simp add: parse_eval)
  then have ne: "?P \<noteq> []" by auto
  then have m: "hd ?P \<in> set ?P" by simp
  from p ne have o: "operation (hd ?P) = JStr (ascii ''delete'')"
    by (cases ?P) simp_all
  from parsed_record_invariant [OF m] m o show ?thesis
    by simp
qed

text \<open>Claim C6 as stated fails: a delete block with \<open>line:0\<close> and the body \<open>foo\<close> is
  parsed to a delete record with line 0 and insert text \<open>foo\<close>.\<close>

theorem parsed_record_counterexample:
  "length (parseLatexDiff (ascii ''```latex-diff\<newline>@@ operation:delete line:0 @@\<newline>foo\<newline>```'')) = 1
   \<and> insertContent (hd (parseLatexDiff
        (ascii ''```latex-diff\<newline>@@ operation:delete line:0 @@\<newline>foo\<newline>```''))) = ascii ''foo''
   \<and> line (hd (parseLatexDiff
        (ascii ''```latex-diff\<newline>@@ operation:delete line:0 @@\<newline>foo\<newline>```''))) = JNum 0
   \<and> \<not> ((operation (hd (parseLatexDiff
             (ascii ''```latex-diff\<newline>@@ operation:delete line:0 @@\<newline>foo\<newline>```'')))
           = JStr (ascii ''delete'')
          \<longrightarrow> insertContent (hd (parseLatexDiff
             (ascii ''```latex-diff\<newline>@@ operation:delete line:0 @@\<newline>foo\<newline>```''))) = [])
        \<and> (\<exists>l. line (hd (parseLatexDiff
             (ascii ''```latex-diff\<newline>@@ operation:delete line:0 @@\<newline>foo\<newline>```''))) = JNum l
             \<and> 1 \<le> l))"
proof -
  have p: "map (\<lambda>b. (operation b, line b, insertContent b))
             (parseLatexDiff (ascii ''```latex-diff\<newline>@@ operation:delete line:0 @@\<newline>foo\<newline>```''))
           = [(JStr (ascii ''delete''), JNum 0, ascii ''foo'')]"
    by (simp add: parse_eval)
  then obtain b where b: "parseLatexDiff (ascii ''```latex-diff\<newline>@@ operation:delete line:0 @@\<newline>foo\<newline>```'') = [b]"
    and f: "operation b = JStr (ascii ''delete'')" "line b = JNum 0" "insertContent b = ascii ''foo''"
    by auto
  show ?thesis
    unfolding b using f by (simp add: ascii_def)
qed

subsection \<open>C7: the insert text of a complete block\<close>

text \<open>
  Claim C7, as the code has it. Take a text without backticks followed by a block in the
  wire format: the opening fence, a newline, \<^verbatim>\<open>@@\<close>, a space, a metadata text, a
  space, \<^verbatim>\<open>@@\<close>, a newline, the body and the closing fence, where the metadata text
  holds no \<^verbatim>\<open>@\<close> and no line terminator, neither starts nor ends with white space and
  gives \<open>operation\<close> and \<open>line\<close>, and where the closing fence is the first \<^verbatim>\<open>```\<close>
  after the metadata line. Then the first record that \<open>parseLatexDiff\<close> returns is the
  record of this block, and its insert text is the body with the white space at its
  start and at its end removed (\<open>code.trim()\<close>), blank lines included. Parsing goes on in
  the text after the block.
\<close>

theorem complete_block_insert_text:
  assumes "list_all is_dot meta" and "64 \<notin> set meta" and "meta \<noteq> []"
    and "\<not> is_space (hd meta)" and "\<not> is_space (last meta)"
    and "truthy (get_prop (parse_metadata meta) ''operation'')"
    and "get_prop (parse_metadata meta) ''line'' \<noteq> JUndefined"
    and "\<forall>i<length body. \<not> prefix fence_close (drop i (body @ fence_close))"
    and "96 \<notin> set pre"
  shows "\<exists>b. parseLatexDiff (pre @ fence_open @ newline # at_at @ 32 # meta @ 32 # at_at @ newline # body
                              @ fence_close @ rest) = b # parseLatexDiff rest
             \<and> insertContent b = js_trim body
             \<and> raw b = fence_open @ newline # at_at @ 32 # meta @ 32 # at_at @ newline # body
                        @ fence_close
             \<and> operation b = get_prop (parse_metadata meta) ''operation''
             \<and> line b = get_prop (parse_metadata meta) ''line''"
proof -
  let ?m = "\<lparr>whole = fence_open @ newline # at_at @ 32 # meta @ 32 # at_at @ newline # body
                          @ fence_close,
              group1 = meta,
              group2 = after_last_newline (newline # takeWhile is_space body)
                       @ dropWhile is_space body,
              after = rest\<rparr>"
  have m: "blockRegex (fence_open @ newline # at_at @ 32 # meta @ 32 # at_at @ newline # body
                       @ fence_close @ rest) = Some ?m"
    using assms(1-5,8) by (rule blockRegex_complete)
  obtain b where b: "block_of_match ?m = Some b"
    using assms(6,7) by (simp add: block_of_match_def Let_def)
  from parse_blocks_step [OF m b] parse_blocks_skip [OF assms(9)]
  have "parseLatexDiff (pre @ fence_open @ newline # at_at @ 32 # meta @ 32 # at_at @ newline # body
                        @ fence_close @ rest) = b # parseLatexDiff rest"
    by (simp add: parseLatexDiff_def)
  moreover have "insertContent b = js_trim body"
    using block_of_match_fields(4) [OF b] by (simp add: js_trim_captured)
  moreover have "raw b = fence_open @ newline # at_at @ 32 # meta @ 32 # at_at @ newline # body
                        @ fence_close"
    using block_of_match_fields(5) [OF b] by simp
  moreover have "operation b = get_prop (parse_metadata meta) ''operation''"
    using block_of_match_fields(6) [OF b] by simp
  moreover have "line b = get_prop (parse_metadata meta) ''line''"
    using block_of_match_fields(7) [OF b] by simp
  ultimately show ?thesis by blast
qed

theorem complete_block_insert_text_witness:
  "\<exists>b. parseLatexDiff (ascii ''Done:\<newline>```latex-diff\<newline>@@ operation:add line:1 @@\<newline>  x\<newline>\<newline>```'') = [b]
       \<and> insertContent b = ascii ''x''
       \<and> operation b = JStr (ascii ''add'') \<and> line b = JNum 1"
proof -
  let ?meta = "ascii ''operation:add line:1''"
  let ?body = "ascii ''  x\<newline>\<newline>''"
  let ?pre = "ascii ''Done:\<newline>''"
  have md: "get_prop (parse_metadata ?meta) ''operation'' = JStr (ascii ''add'')"
    "get_prop (parse_metadata ?meta) ''line'' = JNum 1"
    by (simp_all add: parse_eval)
  have h: "list_all is_dot ?meta" "64 \<notin> set ?meta" "?meta \<noteq> []"
    "\<not> is_space (hd ?meta)" "\<not> is_space (last ?meta)"
    by (simp_all add: ascii_def is_dot_def is_space_def)
  have op: "truthy (get_prop (parse_metadata ?meta) ''operation'')"
    and ln: "get_prop (parse_metadata ?meta) ''line'' \<noteq> JUndefined"
    unfolding md by (simp_all add: truthy_def ascii_def)
  have f: "\<forall>i<length ?body. \<not> prefix fence_close (drop i (?body @ fence_close))"
    by (rule no_backtick_fence) (simp add: ascii_def)
  have p: "96 \<notin> set ?pre"
    by (simp add: ascii_def)
  from complete_block_insert_text [OF h op ln f p, of "[]"]
  obtain b where "parseLatexDiff (?pre @ fence_open @ newline # at_at @ 32 # ?meta @ 32 # at_at @ newline # ?body
                              @ fence_close @ []) = b # parseLatexDiff []"
    and b: "insertContent b = js_trim ?body"
      "operation b = get_prop (parse_metadata ?meta) ''operation''"
      "line b = get_prop (parse_metadata ?meta) ''line''"
    by blast
  moreover have "parseLatexDiff [] = []"
    by (simp add: parse_eval)
  moreover have "?pre @ fence_open @ newline # at_at @ 32 # ?meta @ 32 # at_at @ newline # ?body @ fence_close @ []
                 = ascii ''Done:\<newline>```latex-diff\<newline>@@ operation:add line:1 @@\<newline>  x\<newline>\<newline>```''"
    by (simp add: fence_open_def fence_close_def at_at_def newline_def ascii_def)
  moreover have "js_trim ?body = ascii ''x''"
    by (simp add: js_trim_def ascii_def is_space_def)
  ultimately have "parseLatexDiff (ascii ''Done:\<newline>```latex-diff\<newline>@@ operation:add line:1 @@\<newline>  x\<newline>\<newline>```'') = [b]
       \<and> insertContent b = ascii ''x''
       \<and> operation b = JStr (ascii ''add'') \<and> line b = JNum 1"
    using md by simp
  then show ?thesis by blast
qed

text \<open>Claim C7 as stated fails: the body \<open>  x\<close> followed by a blank line gives the
  insert text \<open>x\<close>, not the body character for character.\<close>

theorem complete_block_counterexample:
  "raw (hd (parseLatexDiff
       (ascii ''```latex-diff\<newline>@@ operation:add line:1 @@\<newline>'' @ ascii ''  x\<newline>\<newline>'' @ ascii ''```'')))
     = ascii ''```latex-diff\<newline>@@ operation:add line:1 @@\<newline>'' @ ascii ''  x\<newline>\<newline>'' @ ascii ''```''
   \<and> insertContent (hd (parseLatexDiff
       (ascii ''```latex-diff\<newline>@@ operation:add line:1 @@\<newline>'' @ ascii ''  x\<newline>\<newline>'' @ ascii ''```'')))
     = ascii ''x''
   \<and> \<not> insertContent (hd (parseLatexDiff
       (ascii ''```latex-diff\<newline>@@ operation:add line:1 @@\<newline>'' @ ascii ''  x\<newline>\<newline>'' @ ascii ''```'')))
     = ascii ''  x\<newline>\<newline>''"
proof -
  have p: "map (\<lambda>b. (raw b, insertContent b))
             (parseLatexDiff (ascii ''```latex-diff\<newline>@@ operation:add line:1 @@\<newline>'' @ ascii ''  x\<newline>\<newline>'' @ ascii ''```''))
           = [(ascii ''```latex-diff\<newline>@@ operation:add line:1 @@\<newline>'' @ ascii ''  x\<newline>\<newline>'' @ ascii ''```'', ascii ''x'')]"
    by (simp add: parse_eval)
  then obtain b where b: "parseLatexDiff (ascii ''```latex-diff\<newline>@@ operation:add line:1 @@\<newline>'' @ ascii ''  x\<newline>\<newline>'' @ ascii ''```'') = [b]"
    and f: "raw b = ascii ''```latex-diff\<newline>@@ operation:add line:1 @@\<newline>'' @ ascii ''  x\<newline>\<newline>'' @ ascii ''```''"
      "insertContent b = ascii ''x''"
    by auto
  show ?thesis
    unfolding b using f by (simp add: ascii_def)
qed

subsection \<open>C2: what one parsed block does\<close>

text \<open>\<open>split\<close> and \<open>join\<close> are inverse, and no piece holds the separator.\<close>

lemma js_split_nonempty: "js_split sep s \<noteq> []"
  by (induction s) (auto split: list.splits)

lemma js_join_Cons_Cons: "js_join sep ((c # x) # xs) = c # js_join sep (x # xs)"
  by (cases xs) simp_all

lemma js_split_join: "js_join sep (js_split sep s) = s"
proof (induction s)
  case Nil
  then show ?case by simp
next
  case (Cons c cs)
  obtain x xs where x: "js_split sep cs = x # xs"
    using js_split_nonempty [of sep cs] by (cases "js_split sep cs") auto
  with Cons show ?case
    by (simp add: js_join_Cons_Cons)
qed

lemma js_split_no_sep: "l \<in> set (js_split sep s) \<Longrightarrow> sep \<notin> set l"
proof (induction s arbitrary: l)
  case Nil
  then show ?case by simp
next
  case (Cons c cs)
  obtain x xs where x: "js_split sep cs = x # xs"
    using js_split_nonempty [of sep cs] by (cases "js_split sep cs") auto
  have "sep \<notin> set x" and "\<forall>y\<in>set xs. sep \<notin> set y"
    using Cons.IH x by auto
  with Cons.prems x show ?case
    by (auto split: if_splits)
qed

text \<open>\<open>splice\<close> with the count \<open>deleteCount || 1\<close>.\<close>

lemma js_splice_NaN:
  assumes "0 \<le> z"
  shows "js_splice xs (Fin (of_int z)) NaN items = take (nat z) xs @ items @ drop (nat z) xs"
  using assms
  by (cases "nat z \<le> length xs")
     (auto simp add: js_splice_def splice_start_def splice_count_def trunc_of_int Let_def min_def)

lemma splice_removed:
  assumes "0 \<le> z" and "\<forall>s. dc = JStr s \<longrightarrow> string_to_number s = NaN"
  shows "js_splice xs (Fin (of_int z)) (to_number (js_or dc (JNum 1))) items
         = take (nat z) xs @ items @ drop (nat z + lines_removed dc) xs"
proof (cases dc)
  case JUndefined
  then show ?thesis
    using js_splice_from [OF assms(1), of xs 1 items]
    by (simp add: js_or_def truthy_def to_number_def lines_removed_def)
next
  case (JNum d)
  then show ?thesis
    using js_splice_from [OF assms(1), of xs 1 items] js_splice_from [OF assms(1), of xs d items]
    by (simp add: js_or_def truthy_def to_number_def lines_removed_def)
next
  case JNaN
  then show ?thesis
    using js_splice_from [OF assms(1), of xs 1 items]
    by (simp add: js_or_def truthy_def to_number_def lines_removed_def)
next
  case (JStr s)
  with assms(2) have "string_to_number s = NaN" by simp
  with JStr show ?thesis
    using js_splice_from [OF assms(1), of xs 1 items] js_splice_NaN [OF assms(1), of xs items]
    by (simp add: js_or_def truthy_def to_number_def lines_removed_def)
qed

text \<open>
  A value that the parser stores as a string is one that \<open>isNaN\<close> accepts: as a number
  it is \<open>NaN\<close>.
\<close>

lemma parseInt_digits_kind:
  "parseInt_digits sg s \<noteq> JUndefined \<and> (\<forall>t. parseInt_digits sg s \<noteq> JStr t)"
  by (auto simp: parseInt_digits_def split: list.splits)

lemma js_parseInt_kind: "js_parseInt s \<noteq> JUndefined \<and> (\<forall>t. js_parseInt s \<noteq> JStr t)"
  using parseInt_digits_kind by (auto simp: js_parseInt_def split: list.splits)

lemma add_pair_kind:
  assumes "\<forall>k v. md k = Some v \<longrightarrow> (\<forall>s. v = JStr s \<longrightarrow> string_to_number s = NaN)"
  shows "\<forall>k v. add_pair md p k = Some v \<longrightarrow> (\<forall>s. v = JStr s \<longrightarrow> string_to_number s = NaN)"
  using assms js_parseInt_kind
  by (auto simp: add_pair_def js_isNaN_def split: list.splits if_splits)

lemma foldl_add_pair_kind:
  assumes "\<forall>k v. md k = Some v \<longrightarrow> (\<forall>s. v = JStr s \<longrightarrow> string_to_number s = NaN)"
  shows "\<forall>k v. foldl add_pair md ps k = Some v \<longrightarrow> (\<forall>s. v = JStr s \<longrightarrow> string_to_number s = NaN)"
  using assms
proof (induction ps arbitrary: md)
  case Nil
  then show ?case by simp
next
  case (Cons p ps)
  have "\<forall>k v. foldl add_pair (add_pair md p) ps k = Some v
          \<longrightarrow> (\<forall>s. v = JStr s \<longrightarrow> string_to_number s = NaN)"
    by (rule Cons.IH) (rule add_pair_kind [OF Cons.prems])
  then show ?case by simp
qed

lemma parse_metadata_kind:
  "parse_metadata m k = Some (JStr s) \<Longrightarrow> string_to_number s = NaN"
  using foldl_add_pair_kind [of Map.empty "split_ws m"] by (simp add: parse_metadata_def)

lemma block_of_match_deleteCount:
  assumes "block_of_match m = Some r" and "deleteCount r = JStr s"
  shows "string_to_number s = NaN"
proof -
  have "parse_metadata (group1 m) (ascii ''delete'') = Some (JStr s)"
    using assms
    by (auto simp add: block_of_match_def Let_def get_prop_def js_or_def truthy_def
          split: if_splits option.splits)
  then show ?thesis by (rule parse_metadata_kind)
qed

lemma parsed_deleteCount:
  assumes "r \<in> set (parseLatexDiff t)"
  shows "\<forall>s. deleteCount r = JStr s \<longrightarrow> string_to_number s = NaN"
proof -
  from assms obtain m s' where "blockRegex s' = Some m" and "block_of_match m = Some r"
    unfolding parseLatexDiff_def by (blast dest: parse_blocks_records)
  then show ?thesis
    using block_of_match_deleteCount by blast
qed

text \<open>
  Claim C2, as the code has it. For one record \<open>b\<close> of a parsed reply whose \<open>line\<close> is a
  number \<open>l\<close> with \<open>1 \<le> l \<le> lineCount + 1\<close>, \<open>l - 1\<close> lines precede the edit, and
  \<^item> \<open>add\<close> inserts the inserted lines at index \<open>l - 1\<close> and removes nothing;
  \<^item> \<open>replace\<close> removes \<open>lines_removed (deleteCount b)\<close> lines from that index (as many
    of them as there are) and puts the inserted lines there;
  \<^item> \<open>delete\<close> removes them and inserts nothing.

  The inserted lines are none when \<open>insertContent\<close> is empty, and otherwise the pieces
  of \<open>insertContent\<close> between its newlines: joined by newlines they give \<open>insertContent\<close>
  back, and none of them holds a newline. The number of lines removed is \<open>deleteCount\<close>
  when that is a positive number, 1 when it is 0 or unset, and none when it is negative
  or not a number.
\<close>

theorem record_semantics:
  assumes "b \<in> set (parseLatexDiff response)"
    and "line b = JNum l" and "1 \<le> l" and "l \<le> int (length (js_split newline txt)) + 1"
  shows "(operation b = JStr (ascii ''add'') \<longrightarrow>
            applyLatexDiffs txt [b] =
              js_join newline (take (nat (l - 1)) (js_split newline txt)
                               @ (if insertContent b = [] then [] else js_split newline (insertContent b))
                               @ drop (nat (l - 1)) (js_split newline txt)))
       \<and> (operation b = JStr (ascii ''replace'') \<longrightarrow>
            applyLatexDiffs txt [b] =
              js_join newline (take (nat (l - 1)) (js_split newline txt)
                               @ (if insertContent b = [] then [] else js_split newline (insertContent b))
                               @ drop (nat (l - 1) + lines_removed (deleteCount b))
                                   (js_split newline txt)))
       \<and> (operation b = JStr (ascii ''delete'') \<longrightarrow>
            applyLatexDiffs txt [b] =
              js_join newline (take (nat (l - 1)) (js_split newline txt)
                               @ drop (nat (l - 1) + lines_removed (deleteCount b))
                                   (js_split newline txt)))
       \<and> length (take (nat (l - 1)) (js_split newline txt)) = nat (l - 1)
       \<and> js_join newline (js_split newline (insertContent b)) = insertContent b
       \<and> (\<forall>x\<in>set (js_split newline (insertContent b)). newline \<notin> set x)"
proof -
  have z: "0 \<le> l - 1" using assms(3) by simp
  have s: "\<forall>s. deleteCount b = JStr s \<longrightarrow> string_to_number s = NaN"
    using assms(1) by (rule parsed_deleteCount)
  have add: "js_splice xs (Fin (of_int l - 1)) (Fin 0) items
             = take (nat (l - 1)) xs @ items @ drop (nat (l - 1)) xs" for xs :: "jsstring list" and items
    using js_splice_from [OF z, of xs 0 items] by simp
  have del: "js_splice xs (Fin (of_int l - 1)) (to_number (js_or (deleteCount b) (JNum 1))) items
             = take (nat (l - 1)) xs @ items @ drop (nat (l - 1) + lines_removed (deleteCount b)) xs"
    for xs :: "jsstring list" and items
    using splice_removed [OF z s, of xs items] by simp
  have len: "length (take (nat (l - 1)) (js_split newline txt)) = nat (l - 1)"
    using assms(3,4) by simp
  have ins: "insert_lines b = (if insertContent b = [] then [] else js_split newline (insertContent b))"
    by (simp add: insert_lines_def)
  have "(operation b = JStr (ascii ''add'') \<longrightarrow>
            applyLatexDiffs txt [b] =
              js_join newline (take (nat (l - 1)) (js_split newline txt) @ insert_lines b
                               @ drop (nat (l - 1)) (js_split newline txt)))
       \<and> (operation b = JStr (ascii ''replace'') \<longrightarrow>
            applyLatexDiffs txt [b] =
              js_join newline (take (nat (l - 1)) (js_split newline txt) @ insert_lines b
                               @ drop (nat (l - 1) + lines_removed (deleteCount b))
                                   (js_split newline txt)))
       \<and> (operation b = JStr (ascii ''delete'') \<longrightarrow>
            applyLatexDiffs txt [b] =
              js_join newline (take (nat (l - 1)) (js_split newline txt)
                               @ drop (nat (l - 1) + lines_removed (deleteCount b))
                                   (js_split newline txt)))"
    by (simp add: apply_single apply_block_def assms(2) add del to_number_JNum ascii_def
          del: js_split.simps)
  then show ?thesis
    unfolding ins using len js_split_join js_split_no_sep by blast
qed

theorem record_semantics_witness:
  "hd (parseLatexDiff (ascii ''```latex-diff\<newline>@@ operation:replace line:2 @@\<newline>X\<newline>Y\<newline>```''))
     \<in> set (parseLatexDiff (ascii ''```latex-diff\<newline>@@ operation:replace line:2 @@\<newline>X\<newline>Y\<newline>```''))
   \<and> line (hd (parseLatexDiff
        (ascii ''```latex-diff\<newline>@@ operation:replace line:2 @@\<newline>X\<newline>Y\<newline>```''))) = JNum 2
   \<and> 1 \<le> (2::int)
   \<and> 2 \<le> int (length (js_split newline (ascii ''a\<newline>b\<newline>c''))) + 1
   \<and> operation (hd (parseLatexDiff
        (ascii ''```latex-diff\<newline>@@ operation:replace line:2 @@\<newline>X\<newline>Y\<newline>```'')))
       = JStr (ascii ''replace'')
   \<and> applyLatexDiffs (ascii ''a\<newline>b\<newline>c'')
        [hd (parseLatexDiff
           (ascii ''```latex-diff\<newline>@@ operation:replace line:2 @@\<newline>X\<newline>Y\<newline>```''))]
      = ascii ''a\<newline>X\<newline>Y\<newline>c''
   \<and> hd (parseLatexDiff (ascii ''```latex-diff\<newline>@@ operation:delete line:1 delete:abc @@\<newline>```''))
     \<in> set (parseLatexDiff (ascii ''```latex-diff\<newline>@@ operation:delete line:1 delete:abc @@\<newline>```''))
   \<and> line (hd (parseLatexDiff
        (ascii ''```latex-diff\<newline>@@ operation:delete line:1 delete:abc @@\<newline>```''))) = JNum 1
   \<and> 1 \<le> int (length (js_split newline (ascii ''a\<newline>b''))) + 1
   \<and> operation (hd (parseLatexDiff
        (ascii ''```latex-diff\<newline>@@ operation:delete line:1 delete:abc @@\<newline>```'')))
       = JStr (ascii ''delete'')
   \<and> lines_removed (deleteCount (hd (parseLatexDiff
        (ascii ''```latex-diff\<newline>@@ operation:delete line:1 delete:abc @@\<newline>```'')))) = 0
   \<and> applyLatexDiffs (ascii ''a\<newline>b'')
        [hd (parseLatexDiff
           (ascii ''```latex-diff\<newline>@@ operation:delete line:1 delete:abc @@\<newline>```''))]
      = ascii ''a\<newline>b''"
proof -
  let ?P = "parseLatexDiff (ascii ''```latex-diff\<newline>@@ operation:replace line:2 @@\<newline>X\<newline>Y\<newline>```'')"
  let ?Q = "parseLatexDiff (ascii ''```latex-diff\<newline>@@ operation:delete line:1 delete:abc @@\<newline>```'')"
  let ?doc = "ascii ''a\<newline>b\<newline>c''"
  let ?doc' = "ascii ''a\<newline>b''"
  have p: "map (\<lambda>b. (operation b, line b, deleteCount b, insertContent b)) ?P
           = [(JStr (ascii ''replace''), JNum 2, JNum 0, ascii ''X\<newline>Y'')]"
    by (simp add: parse_eval)
  then obtain b where b: "?P = [b]"
    and f: "operation b = JStr (ascii ''replace'')" "line b = JNum 2" "deleteCount b = JNum 0"
      "insertContent b = ascii ''X\<newline>Y''"
    by auto
  have q: "map (\<lambda>b. (operation b, line b, deleteCount b)) ?Q
           = [(JStr (ascii ''delete''), JNum 1, JStr (ascii ''abc''))]"
    by (simp add: parse_eval)
  then obtain c where c: "?Q = [c]"
    and g: "operation c = JStr (ascii ''delete'')" "line c = JNum 1" "deleteCount c = JStr (ascii ''abc'')"
    by auto
  have m: "b \<in> set ?P" unfolding b by simp
  have m': "c \<in> set ?Q" unfolding c by simp
  have l: "2 \<le> int (length (js_split newline ?doc)) + 1"
    by (simp add: ascii_def newline_def)
  have l': "1 \<le> int (length (js_split newline ?doc')) + 1"
    by (simp add: ascii_def newline_def)
  from record_semantics [OF m f(2) _ l] f(1)
  have "applyLatexDiffs ?doc [b] =
              js_join newline (take (nat (2 - 1)) (js_split newline ?doc)
                               @ (if insertContent b = [] then [] else js_split newline (insertContent b))
                               @ drop (nat (2 - 1) + lines_removed (deleteCount b))
                                   (js_split newline ?doc))"
    by simp
  then have r: "applyLatexDiffs ?doc [b] = ascii ''a\<newline>X\<newline>Y\<newline>c''"
    unfolding f by (simp add: lines_removed_def ascii_def newline_def)
  have k: "lines_removed (deleteCount c) = 0"
    unfolding g by (simp add: lines_removed_def ascii_def)
  from record_semantics [OF m' g(2) _ l'] g(1)
  have "applyLatexDiffs ?doc' [c] =
              js_join newline (take (nat (1 - 1)) (js_split newline ?doc')
                               @ drop (nat (1 - 1) + lines_removed (deleteCount c))
                                   (js_split newline ?doc'))"
    by simp
  then have r': "applyLatexDiffs ?doc' [c] = ascii ''a\<newline>b''"
    unfolding k by (simp add: ascii_def newline_def)
  from l l' f(1,2) g(1,2) k r r' show ?thesis
    unfolding b c by simp
qed

text \<open>
  Claim C2 as stated, for every parsed record, fails. The blocks
  \<^verbatim>\<open>@@ operation:delete line:1 delete:abc @@\<close> and \<^verbatim>\<open>@@ operation:delete line:1 delete:-2 @@\<close>
  parse to delete records with the delete counts \<open>abc\<close> and \<open>-2\<close>. Both are truthy, so
  \<open>deleteCount || 1\<close> keeps them, and \<open>splice\<close> reads each as a count of 0. On the document
  \<open>a\<close>, \<open>b\<close> each record addresses line 1 and leaves the document as it is: no line is
  removed, where the claim has a delete record remove \<open>deleteCount\<close> lines, 1 when the
  count is 0 or unset.
\<close>

theorem record_semantics_counterexample:
  "length (parseLatexDiff (ascii ''```latex-diff\<newline>@@ operation:delete line:1 delete:abc @@\<newline>```'')) = 1
   \<and> operation (hd (parseLatexDiff
        (ascii ''```latex-diff\<newline>@@ operation:delete line:1 delete:abc @@\<newline>```'')))
       = JStr (ascii ''delete'')
   \<and> line (hd (parseLatexDiff
        (ascii ''```latex-diff\<newline>@@ operation:delete line:1 delete:abc @@\<newline>```''))) = JNum 1
   \<and> deleteCount (hd (parseLatexDiff
        (ascii ''```latex-diff\<newline>@@ operation:delete line:1 delete:abc @@\<newline>```'')))
       = JStr (ascii ''abc'')
   \<and> applyLatexDiffs (ascii ''a\<newline>b'')
        (parseLatexDiff (ascii ''```latex-diff\<newline>@@ operation:delete line:1 delete:abc @@\<newline>```''))
       = ascii ''a\<newline>b''
   \<and> \<not> applyLatexDiffs (ascii ''a\<newline>b'')
        (parseLatexDiff (ascii ''```latex-diff\<newline>@@ operation:delete line:1 delete:abc @@\<newline>```''))
       = js_join newline
           (take 0 (js_split newline (ascii ''a\<newline>b''))
            @ drop (0 + nat (effective_count (deleteCount (hd (parseLatexDiff
                 (ascii ''```latex-diff\<newline>@@ operation:delete line:1 delete:abc @@\<newline>```''))))))
                (js_split newline (ascii ''a\<newline>b'')))
   \<and> length (parseLatexDiff (ascii ''```latex-diff\<newline>@@ operation:delete line:1 delete:-2 @@\<newline>```'')) = 1
   \<and> operation (hd (parseLatexDiff
        (ascii ''```latex-diff\<newline>@@ operation:delete line:1 delete:-2 @@\<newline>```'')))
       = JStr (ascii ''delete'')
   \<and> line (hd (parseLatexDiff
        (ascii ''```latex-diff\<newline>@@ operation:delete line:1 delete:-2 @@\<newline>```''))) = JNum 1
   \<and> deleteCount (hd (parseLatexDiff
        (ascii ''```latex-diff\<newline>@@ operation:delete line:1 delete:-2 @@\<newline>```''))) = JNum (- 2)
   \<and> applyLatexDiffs (ascii ''a\<newline>b'')
        (parseLatexDiff (ascii ''```latex-diff\<newline>@@ operation:delete line:1 delete:-2 @@\<newline>```''))
       = ascii ''a\<newline>b''
   \<and> int (length (js_split newline (ascii ''a\<newline>b'')))
       - int (length (js_split newline (applyLatexDiffs (ascii ''a\<newline>b'')
           (parseLatexDiff (ascii ''```latex-diff\<newline>@@ operation:delete line:1 delete:-2 @@\<newline>```'')))))
       \<noteq> effective_count (deleteCount (hd (parseLatexDiff
           (ascii ''```latex-diff\<newline>@@ operation:delete line:1 delete:-2 @@\<newline>```''))))"
proof -
  let ?P = "parseLatexDiff (ascii ''```latex-diff\<newline>@@ operation:delete line:1 delete:abc @@\<newline>```'')"
  let ?Q = "parseLatexDiff (ascii ''```latex-diff\<newline>@@ operation:delete line:1 delete:-2 @@\<newline>```'')"
  have p: "map (\<lambda>b. (operation b, line b, deleteCount b)) ?P
           = [(JStr (ascii ''delete''), JNum 1, JStr (ascii ''abc''))]"
    by (simp add: parse_eval)
  then obtain b where b: "?P = [b]"
    and f: "operation b = JStr (ascii ''delete'')" "line b = JNum 1" "deleteCount b = JStr (ascii ''abc'')"
    by auto
  have q: "map (\<lambda>b. (operation b, line b, deleteCount b)) ?Q
           = [(JStr (ascii ''delete''), JNum 1, JNum (- 2))]"
    by (simp add: parse_eval)
  then obtain c where c: "?Q = [c]"
    and g: "operation c = JStr (ascii ''delete'')" "line c = JNum 1" "deleteCount c = JNum (- 2)"
    by auto
  have n: "string_to_number (ascii ''abc'') = NaN"
    by (simp add: string_to_number_def js_trim_def unsigned_decimal_def is_digit_def is_space_def
          ascii_def)
  have rb: "applyLatexDiffs (ascii ''a\<newline>b'') [b] = ascii ''a\<newline>b''"
    using f n
    by (simp add: apply_single apply_block_def to_number_def js_or_def truthy_def js_splice_def
          splice_start_def splice_count_def trunc_def ascii_def newline_def)
  have rc: "applyLatexDiffs (ascii ''a\<newline>b'') [c] = ascii ''a\<newline>b''"
    using g
    by (simp add: apply_single apply_block_def to_number_def js_or_def truthy_def js_splice_def
          splice_start_def splice_count_def trunc_def ascii_def newline_def)
  have cl: "js_join newline (take 0 (js_split newline (ascii ''a\<newline>b''))
            @ drop (0 + nat (effective_count (deleteCount b))) (js_split newline (ascii ''a\<newline>b'')))
            = ascii ''b''"
    using f by (simp add: effective_count_def ascii_def newline_def)
  have ne: "ascii ''a\<newline>b'' \<noteq> ascii ''b''"
    by (simp add: ascii_def)
  have ec: "effective_count (deleteCount c) = - 2"
    unfolding g by (simp add: effective_count_def)
  show ?thesis
    unfolding b c using f g rb rc cl ne ec by simp
qed

section \<open>Properties of the undo history and the document store\<close>

lemma undoHistory_notify: "undoHistory (notify st) = undoHistory st"
  by (simp add: notify_def split: option.splits)

lemma documentContent_notify: "documentContent (notify st) = documentContent st"
  by (simp add: notify_def split: option.splits)

lemma notified_notify:
  "notified (notify st) =
     (case changeCallback st of None \<Rightarrow> notified st
      | Some cb \<Rightarrow> notified st @ [(cb, documentContent st)])"
  by (simp add: notify_def split: option.splits)

lemma addToUndoHistory_fields:
  "documentContent (addToUndoHistory c d st) = documentContent st"
  "changeCallback (addToUndoHistory c d st) = changeCallback st"
  "notified (addToUndoHistory c d st) = notified st"
  "clock (addToUndoHistory c d st) = clock st"
  by (simp_all add: addToUndoHistory_def Let_def)

lemma undoHistory_addToUndoHistory:
  "undoHistory (addToUndoHistory c d st) =
     slice_last MAX_UNDO_HISTORY
       (undoHistory st @ [\<lparr>content = c, description = d, timestamp = clock st\<rparr>])"
  by (simp add: addToUndoHistory_def Let_def slice_last_def)

lemma length_addToUndoHistory:
  "length (undoHistory (addToUndoHistory c d st)) = min (Suc (length (undoHistory st))) MAX_UNDO_HISTORY"
  by (simp add: undoHistory_addToUndoHistory slice_last_def)

lemma last_addToUndoHistory:
  "last (undoHistory (addToUndoHistory c d st)) = \<lparr>content = c, description = d, timestamp = clock st\<rparr>"
  by (simp add: undoHistory_addToUndoHistory slice_last_def MAX_UNDO_HISTORY_def)

lemma addToUndoHistory_nonempty: "undoHistory (addToUndoHistory c d st) \<noteq> []"
  using length_addToUndoHistory [of c d st] by (auto simp: MAX_UNDO_HISTORY_def)

lemma length_setDocument:
  "length (undoHistory (setDocument c h st)) \<le> max (length (undoHistory st)) (min (Suc (length (undoHistory st))) MAX_UNDO_HISTORY)"
  by (simp add: setDocument_def Let_def undoHistory_notify length_addToUndoHistory)

lemma setDocument_bounded:
  "length (undoHistory st) \<le> MAX_UNDO_HISTORY \<Longrightarrow> length (undoHistory (setDocument c h st)) \<le> MAX_UNDO_HISTORY"
  using length_setDocument [of c h st] by simp

lemma run_call_bounded:
  "length (undoHistory st) \<le> MAX_UNDO_HISTORY \<Longrightarrow> length (undoHistory (run_call st call)) \<le> MAX_UNDO_HISTORY"
proof (cases call)
  case (AskAI r)
  assume b: "length (undoHistory st) \<le> MAX_UNDO_HISTORY"
  show ?thesis
    using b AskAI
    by (auto simp: askAI_def Let_def undoHistory_notify length_addToUndoHistory setDocument_bounded
             split: option.splits)
next
  case UndoLastChange
  assume b: "length (undoHistory st) \<le> MAX_UNDO_HISTORY"
  have "length (undoHistory (setDocument c False (st\<lparr>undoHistory := butlast (undoHistory st)\<rparr>))) \<le> MAX_UNDO_HISTORY" for c
    using b by (intro setDocument_bounded) simp
  with b UndoLastChange show ?thesis
    by (simp add: undoLastChange_def Let_def)
qed (simp_all add: initializeDocument_def setDocument_bounded applyDiffs_def applySingleDiff_def
       Let_def clearUndoHistory_def)

lemma foldl_run_call_bounded:
  "length (undoHistory st) \<le> MAX_UNDO_HISTORY \<Longrightarrow>
   length (undoHistory (foldl run_call st calls)) \<le> MAX_UNDO_HISTORY"
  by (induction calls arbitrary: st) (simp_all add: run_call_bounded)

lemma undo_after_push:
  assumes "undoHistory st2 = undoHistory (addToUndoHistory D d st)"
  shows "fst (undoLastChange st2) \<and> documentContent (snd (undoLastChange st2)) = D"
proof -
  have ne: "undoHistory st2 \<noteq> []"
    using assms addToUndoHistory_nonempty by simp
  have "content (last (undoHistory st2)) = D"
    using assms by (simp add: last_addToUndoHistory)
  with ne show ?thesis
    by (simp add: undoLastChange_def Let_def setDocument_def documentContent_notify)
qed

subsection \<open>C4: the undo history is bounded\<close>

text \<open>
  Claim C4. The undo history never holds more than 20 entries after any sequence of
  calls. \<open>addToUndoHistory\<close> appends the new entry and, when the length then exceeds 20,
  keeps exactly the 20 most recent entries; pushing onto a history of 20 entries drops
  the oldest one.
\<close>

theorem undo_history_bounded:
  "length (undoHistory (run_calls calls)) \<le> 20
   \<and> undoHistory (addToUndoHistory c d st) =
       (let pushed = undoHistory st @ [\<lparr>content = c, description = d, timestamp = clock st\<rparr>]
        in if length pushed > 20 then drop (length pushed - 20) pushed else pushed)
   \<and> length (undoHistory (addToUndoHistory c d st)) \<le> 20
   \<and> (length (undoHistory st) = 20 \<longrightarrow>
        undoHistory (addToUndoHistory c d st) =
          tl (undoHistory st) @ [\<lparr>content = c, description = d, timestamp = clock st\<rparr>])"
proof (intro conjI impI)
  show "length (undoHistory (run_calls calls)) \<le> 20"
    using foldl_run_call_bounded [of initial_state calls]
    by (simp add: run_calls_def initial_state_def MAX_UNDO_HISTORY_def)
  show "undoHistory (addToUndoHistory c d st) =
       (let pushed = undoHistory st @ [\<lparr>content = c, description = d, timestamp = clock st\<rparr>]
        in if length pushed > 20 then drop (length pushed - 20) pushed else pushed)"
    by (simp add: addToUndoHistory_def Let_def slice_last_def MAX_UNDO_HISTORY_def)
  show "length (undoHistory (addToUndoHistory c d st)) \<le> 20"
    by (simp add: length_addToUndoHistory MAX_UNDO_HISTORY_def)
  assume "length (undoHistory st) = 20"
  then show "undoHistory (addToUndoHistory c d st) =
          tl (undoHistory st) @ [\<lparr>content = c, description = d, timestamp = clock st\<rparr>]"
    by (cases "undoHistory st")
       (simp_all add: undoHistory_addToUndoHistory slice_last_def MAX_UNDO_HISTORY_def)
qed

text \<open>A full history of 20 snapshots \<open>x\<close>: pushing \<open>y\<close> leaves 19 of them and \<open>y\<close>.\<close>

theorem undo_history_bounded_witness:
  "length (undoHistory (initial_state\<lparr>undoHistory :=
        replicate 20 \<lparr>content = ascii ''x'', description = [], timestamp = 0\<rparr>\<rparr>)) = 20
   \<and> undoHistory (addToUndoHistory (ascii ''y'') [] (initial_state\<lparr>undoHistory :=
        replicate 20 \<lparr>content = ascii ''x'', description = [], timestamp = 0\<rparr>\<rparr>)) =
      tl (replicate 20 \<lparr>content = ascii ''x'', description = [], timestamp = 0\<rparr>)
        @ [\<lparr>content = ascii ''y'', description = [], timestamp = 0\<rparr>]
   \<and> length (undoHistory (run_calls [SetDocument (ascii ''a'') True, UndoLastChange])) \<le> 20"
  using undo_history_bounded [of "[SetDocument (ascii ''a'') True, UndoLastChange]" "ascii ''y''" "[]"
      "initial_state\<lparr>undoHistory :=
        replicate 20 \<lparr>content = ascii ''x'', description = [], timestamp = 0\<rparr>\<rparr>"]
  by (simp add: initial_state_def)

subsection \<open>C9: undo on an empty history\<close>

text \<open>
  Claim C9. When the undo history is empty, \<open>undoLastChange\<close> returns \<open>false\<close> and leaves
  the whole state, the document and the history with it, as it was; it has no failing
  branch. \<open>canUndo\<close> is true exactly when the history is not empty.
\<close>

theorem undo_empty_noop:
  "(undoHistory st = [] \<longrightarrow> undoLastChange st = (False, st))
   \<and> (canUndo st \<longleftrightarrow> undoHistory st \<noteq> [])"
  by (simp add: undoLastChange_def canUndo_def)

theorem undo_empty_noop_witness:
  "undoHistory initial_state = []
   \<and> undoLastChange initial_state = (False, initial_state)
   \<and> \<not> canUndo initial_state"
  using undo_empty_noop [of initial_state] by (simp add: initial_state_def)

subsection \<open>C10: setting the document to its current content\<close>

text \<open>
  Claim C10. \<open>setDocument(newContent, true)\<close> with \<open>newContent\<close> equal to the current
  content pushes nothing onto the undo history. Every call of \<open>setDocument\<close>, whatever
  the content and the flag, calls the registered callback, if there is one, with the new
  content, which is the stored content afterwards.
\<close>

theorem setDocument_same_content:
  "undoHistory (setDocument (documentContent st) True st) = undoHistory st
   \<and> notified (setDocument newContent addToHistory st) =
       (case changeCallback st of
          None \<Rightarrow> notified st
        | Some cb \<Rightarrow> notified st @ [(cb, newContent)])
   \<and> documentContent (setDocument newContent addToHistory st) = newContent"
  by (simp add: setDocument_def Let_def undoHistory_notify notified_notify documentContent_notify
        addToUndoHistory_fields split: option.splits)

theorem setDocument_same_content_witness:
  "undoHistory (setDocument (ascii ''doc'') True
      (initializeDocument (ascii ''doc'') (Some 1) initial_state)) = []
   \<and> notified (setDocument (ascii ''doc'') True
      (initializeDocument (ascii ''doc'') (Some 1) initial_state)) = [(1, ascii ''doc'')]"
  using setDocument_same_content [of "initializeDocument (ascii ''doc'') (Some 1) initial_state"
      "ascii ''doc''" True]
  by (simp add: initializeDocument_def initial_state_def)

subsection \<open>C3: undo after an applied batch\<close>

text \<open>
  Claim C3, as the code has it. After the diff branch of \<open>askAI\<close>, which always pushes the
  previous text, \<open>undoLastChange\<close> returns \<open>true\<close> and the stored document is the text
  from before the turn. After \<open>applyDiffs\<close> the same holds whenever the batch changed
  the text: \<open>applyDiffs\<close> goes through \<open>setDocument\<close>, which pushes a snapshot only when
  the new text differs from the stored one.
\<close>

theorem undo_round_trip:
  "(hasLatexDiffs response \<longrightarrow>
      fst (undoLastChange (snd (askAI response st)))
      \<and> documentContent (snd (undoLastChange (snd (askAI response st)))) = documentContent st)
   \<and> (applyLatexDiffs (documentContent st) P \<noteq> documentContent st \<longrightarrow>
      fst (undoLastChange (snd (applyDiffs P st)))
      \<and> documentContent (snd (undoLastChange (snd (applyDiffs P st)))) = documentContent st)"
proof (intro conjI impI)
  assume h: "hasLatexDiffs response"
  have "undoHistory (snd (askAI response st)) =
        undoHistory (addToUndoHistory (documentContent st)
          (ascii ''Applied '' @ show_nat (length (parseLatexDiff response)) @ ascii '' diff changes'') st)"
    using h by (simp add: askAI_def Let_def undoHistory_notify)
  from undo_after_push [OF this]
  show "fst (undoLastChange (snd (askAI response st)))"
    and "documentContent (snd (undoLastChange (snd (askAI response st)))) = documentContent st"
    by simp_all
next
  assume c: "applyLatexDiffs (documentContent st) P \<noteq> documentContent st"
  have "undoHistory (snd (applyDiffs P st)) =
        undoHistory (addToUndoHistory (documentContent st) (ascii ''Document replaced'') st)"
    using c by (auto simp add: applyDiffs_def Let_def setDocument_def undoHistory_notify)
  from undo_after_push [OF this]
  show "fst (undoLastChange (snd (applyDiffs P st)))"
    and "documentContent (snd (undoLastChange (snd (applyDiffs P st)))) = documentContent st"
    by simp_all
qed

text \<open>
  The document \<open>a / b\<close>, the reply with one block that deletes line 1, and the same
  deletion handed to \<open>applyDiffs\<close>: both are undone to \<open>a / b\<close>.
\<close>

theorem undo_round_trip_witness:
  "hasLatexDiffs (ascii ''```latex-diff\<newline>@@ operation:delete line:1 @@\<newline>```'')
   \<and> applyLatexDiffs (ascii ''a\<newline>b'')
        [\<lparr>operation = JStr (ascii ''delete''), line = JNum 1, deleteCount = JNum 1,
          insertContent = [], metadata = Map.empty, raw = []\<rparr>] \<noteq> ascii ''a\<newline>b''
   \<and> documentContent (snd (undoLastChange (snd (askAI
        (ascii ''```latex-diff\<newline>@@ operation:delete line:1 @@\<newline>```'')
        (initial_state\<lparr>documentContent := ascii ''a\<newline>b''\<rparr>))))) = ascii ''a\<newline>b''
   \<and> documentContent (snd (undoLastChange (snd (applyDiffs
        [\<lparr>operation = JStr (ascii ''delete''), line = JNum 1, deleteCount = JNum 1,
          insertContent = [], metadata = Map.empty, raw = []\<rparr>]
        (initial_state\<lparr>documentContent := ascii ''a\<newline>b''\<rparr>))))) = ascii ''a\<newline>b''"
proof -
  have h: "hasLatexDiffs (ascii ''```latex-diff\<newline>@@ operation:delete line:1 @@\<newline>```'')"
    by (simp add: hasLatexDiffs_def markerRegex_def regex_eval)
  have c: "applyLatexDiffs (ascii ''a\<newline>b'')
        [\<lparr>operation = JStr (ascii ''delete''), line = JNum 1, deleteCount = JNum 1,
          insertContent = [], metadata = Map.empty, raw = []\<rparr>] \<noteq> ascii ''a\<newline>b''"
    by code_simp
  show ?thesis
    using h c
      undo_round_trip [of "ascii ''```latex-diff\<newline>@@ operation:delete line:1 @@\<newline>```''"
        "initial_state\<lparr>documentContent := ascii ''a\<newline>b''\<rparr>"
        "[\<lparr>operation = JStr (ascii ''delete''), line = JNum 1, deleteCount = JNum 1,
          insertContent = [], metadata = Map.empty, raw = []\<rparr>]"]
    by (simp add: initial_state_def)
qed

text \<open>
  Claim C3 as stated fails for \<open>applyDiffs\<close>. The stored document is \<open>a\<close>, the history
  holds one older snapshot \<open>z\<close>, and the batch replaces line 1 by \<open>a\<close>. The text does
  not change, nothing is pushed, and the undo that follows restores \<open>z\<close>.
\<close>

theorem undo_round_trip_counterexample:
  "\<not> (fst (undoLastChange (snd (applyDiffs
          [\<lparr>operation = JStr (ascii ''replace''), line = JNum 1, deleteCount = JNum 1,
            insertContent = ascii ''a'', metadata = Map.empty, raw = []\<rparr>]
          (initial_state\<lparr>documentContent := ascii ''a'',
             undoHistory := [\<lparr>content = ascii ''z'', description = [], timestamp = 0\<rparr>]\<rparr>))))
       \<and> documentContent (snd (undoLastChange (snd (applyDiffs
          [\<lparr>operation = JStr (ascii ''replace''), line = JNum 1, deleteCount = JNum 1,
            insertContent = ascii ''a'', metadata = Map.empty, raw = []\<rparr>]
          (initial_state\<lparr>documentContent := ascii ''a'',
             undoHistory := [\<lparr>content = ascii ''z'', description = [], timestamp = 0\<rparr>]\<rparr>)))))
         = ascii ''a'')"
proof -
  have same: "applyLatexDiffs (ascii ''a'')
          [\<lparr>operation = JStr (ascii ''replace''), line = JNum 1, deleteCount = JNum 1,
            insertContent = ascii ''a'', metadata = Map.empty, raw = []\<rparr>] = ascii ''a''"
    by code_simp
  have "documentContent (snd (undoLastChange (snd (applyDiffs
          [\<lparr>operation = JStr (ascii ''replace''), line = JNum 1, deleteCount = JNum 1,
            insertContent = ascii ''a'', metadata = Map.empty, raw = []\<rparr>]
          (initial_state\<lparr>documentContent := ascii ''a'',
             undoHistory := [\<lparr>content = ascii ''z'', description = [], timestamp = 0\<rparr>]\<rparr>)))))
         = ascii ''z''"
    by (simp add: applyDiffs_def Let_def same setDocument_def undoLastChange_def notify_def
          initial_state_def)
  then show ?thesis
    by (simp add: ascii_def)
qed

end
